theory Spec2Isabelle
  imports Complex_Main "HOL-Library.AList"
begin

section \<open>Text: the string operations the extractors use\<close>

text \<open>
  Rendered text is a \<open>string\<close>: a list of characters with code points below 256. The
  character classes are Python's \<open>\s\<close>, \<open>\d\<close> and \<open>\w\<close> for \<open>str\<close> patterns on these
  code points. \<open>str.strip\<close> and \<open>\s\<close> agree on the white space: tab to carriage return,
  the four separators 0x1C to 0x1F, the blank, the next-line control 0x85 and the no-break
  space 0xA0. \<open>\d\<close> is the ten decimal digits. \<open>\w\<close> is what \<open>str.isalnum\<close> accepts and
  the underscore: the letters and digits of ASCII, the letters of Latin-1, and its
  superscript digits, fractions, ordinal indicators and micro sign.
\<close>

definition is_space :: "char \<Rightarrow> bool" where
  "is_space c \<longleftrightarrow> c \<in> set [CHR 0x09, CHR 0x0A, CHR 0x0B, CHR 0x0C, CHR 0x0D,
                          CHR 0x1C, CHR 0x1D, CHR 0x1E, CHR 0x1F, CHR '' '',
                          CHR 0x85, CHR 0xA0]"

definition is_digit :: "char \<Rightarrow> bool" where
  "is_digit c \<longleftrightarrow> c \<in> set ''0123456789''"

definition upper_letters :: string where
  "upper_letters = ''ABCDEFGHIJKLMNOPQRSTUVWXYZ''"

definition lower_letters :: string where
  "lower_letters = ''abcdefghijklmnopqrstuvwxyz''"

text \<open>
  The capital letters of Latin-1 (0xC0 to 0xDE without the multiplication sign), their
  small letters in the same order, and the other word characters above ASCII.
\<close>

definition latin1_upper :: string where
  "latin1_upper =
     [CHR 0xC0, CHR 0xC1, CHR 0xC2, CHR 0xC3, CHR 0xC4, CHR 0xC5, CHR 0xC6,
     CHR 0xC7, CHR 0xC8, CHR 0xC9, CHR 0xCA, CHR 0xCB, CHR 0xCC, CHR 0xCD,
     CHR 0xCE, CHR 0xCF, CHR 0xD0, CHR 0xD1, CHR 0xD2, CHR 0xD3, CHR 0xD4,
     CHR 0xD5, CHR 0xD6, CHR 0xD8, CHR 0xD9, CHR 0xDA, CHR 0xDB, CHR 0xDC,
     CHR 0xDD, CHR 0xDE]"

definition latin1_lower :: string where
  "latin1_lower =
     [CHR 0xE0, CHR 0xE1, CHR 0xE2, CHR 0xE3, CHR 0xE4, CHR 0xE5, CHR 0xE6,
     CHR 0xE7, CHR 0xE8, CHR 0xE9, CHR 0xEA, CHR 0xEB, CHR 0xEC, CHR 0xED,
     CHR 0xEE, CHR 0xEF, CHR 0xF0, CHR 0xF1, CHR 0xF2, CHR 0xF3, CHR 0xF4,
     CHR 0xF5, CHR 0xF6, CHR 0xF8, CHR 0xF9, CHR 0xFA, CHR 0xFB, CHR 0xFC,
     CHR 0xFD, CHR 0xFE]"

definition latin1_other_word :: string where
  "latin1_other_word =
     [CHR 0xAA, CHR 0xB2, CHR 0xB3, CHR 0xB5, CHR 0xB9, CHR 0xBA, CHR 0xBC,
     CHR 0xBD, CHR 0xBE, CHR 0xDF, CHR 0xFF]"

definition is_word :: "char \<Rightarrow> bool" where
  "is_word c \<longleftrightarrow>
     c \<in> set (lower_letters @ upper_letters @ ''0123456789_'' @
              latin1_upper @ latin1_lower @ latin1_other_word)"

text \<open>\<open>s.strip()\<close>: white space removed at both ends.\<close>

definition strip :: "string \<Rightarrow> string" where
  "strip s = rev (dropWhile is_space (rev (dropWhile is_space s)))"

text \<open>\<open>s.lower()\<close>: a capital letter becomes its small letter, any other character stays.\<close>

definition char_lower :: "char \<Rightarrow> char" where
  "char_lower c =
     (case map_of (zip (upper_letters @ latin1_upper) (lower_letters @ latin1_lower)) c of
        Some l \<Rightarrow> l
      | None \<Rightarrow> c)"

definition lower :: "string \<Rightarrow> string" where
  "lower s = map char_lower s"

text \<open>\<open>sub in s\<close> for strings: \<open>sub\<close> occurs in \<open>s\<close> as a contiguous block.\<close>

fun str_contains :: "string \<Rightarrow> string \<Rightarrow> bool" where
  "str_contains sub [] = (sub = [])"
| "str_contains sub (c # cs) = (take (length sub) (c # cs) = sub \<or> str_contains sub cs)"

text \<open>\<open>s.replace(old, '')\<close> for a one-character \<open>old\<close>.\<close>

definition remove_char :: "char \<Rightarrow> string \<Rightarrow> string" where
  "remove_char c s = filter (\<lambda>x. x \<noteq> c) s"

section \<open>Regular expressions: the fragment the two patterns are written in\<close>

text \<open>
  Both patterns of the repository are sequences of greedy repetitions of one character
  class, some of them inside a capture group. \<open>Rep c lo hi g\<close> is the class \<open>c\<close> repeated
  between \<open>lo\<close> and \<open>hi\<close> times (\<open>None\<close>: no upper bound), its text going to group \<open>g\<close>.
  The matcher backtracks as Python's \<open>re\<close> does: a repetition takes as many characters as
  it can and gives them back one at a time while the rest of the pattern fails.
\<close>

datatype cclass = Digit | WordChar | Space | Lit char | Alt cclass cclass

fun in_class :: "cclass \<Rightarrow> char \<Rightarrow> bool" where
  "in_class Digit ch = is_digit ch"
| "in_class WordChar ch = is_word ch"
| "in_class Space ch = is_space ch"
| "in_class (Lit c) ch = (ch = c)"
| "in_class (Alt a b) ch = (in_class a ch \<or> in_class b ch)"

datatype atom = Rep cclass nat "nat option" "nat option"

fun try_down :: "nat \<Rightarrow> nat \<Rightarrow> (nat \<Rightarrow> 'a option) \<Rightarrow> 'a option" where
  "try_down lo 0 f = (if lo = 0 then f 0 else None)"
| "try_down lo (Suc n) f =
     (if Suc n < lo then None
      else (case f (Suc n) of Some r \<Rightarrow> Some r | None \<Rightarrow> try_down lo n f))"

fun capture :: "nat option \<Rightarrow> string \<Rightarrow> string list \<Rightarrow> string list" where
  "capture None txt gs = gs"
| "capture (Some g) txt gs = gs[g := txt @ gs ! g]"

fun match_here :: "nat \<Rightarrow> atom list \<Rightarrow> string \<Rightarrow> string list option" where
  "match_here ng [] s = Some (replicate ng [])"
| "match_here ng (Rep c lo hi g # rest) s =
     (let avail = length (takeWhile (in_class c) s);
          n = (case hi of None \<Rightarrow> avail | Some h \<Rightarrow> min h avail)
      in try_down lo n (\<lambda>k. map_option (capture g (take k s)) (match_here ng rest (drop k s))))"

text \<open>\<open>re.match\<close>: the pattern at the start of the text; the result is \<open>match.groups()\<close>.\<close>

definition re_match :: "nat \<Rightarrow> atom list \<Rightarrow> string \<Rightarrow> string list option" where
  "re_match ng p s = match_here ng p s"

text \<open>\<open>re.search\<close>: the first position, from the left, where the pattern matches.\<close>

fun re_search :: "nat \<Rightarrow> atom list \<Rightarrow> string \<Rightarrow> string list option" where
  "re_search ng p [] = match_here ng p []"
| "re_search ng p (c # cs) =
     (case match_here ng p (c # cs) of Some gs \<Rightarrow> Some gs | None \<Rightarrow> re_search ng p cs)"

text \<open>
  The shape a pattern describes, read off the pattern alone: a text has the shape when
  it splits into one piece per repetition, each piece made of characters of the class and
  of a length within the bounds.
\<close>

fun fits :: "atom \<Rightarrow> string \<Rightarrow> bool" where
  "fits (Rep c lo hi g) txt \<longleftrightarrow>
     list_all (in_class c) txt \<and> lo \<le> length txt \<and>
     (case hi of None \<Rightarrow> True | Some h \<Rightarrow> length txt \<le> h)"

definition has_shape :: "atom list \<Rightarrow> string \<Rightarrow> bool" where
  "has_shape p s \<longleftrightarrow> (\<exists>parts rest. list_all2 fits p parts \<and> s = concat parts @ rest)"

text \<open>The least length of the text a group can capture: the lower bounds of its repetitions.\<close>

fun group_min :: "nat \<Rightarrow> atom list \<Rightarrow> nat" where
  "group_min g [] = 0"
| "group_min g (Rep c lo hi g' # p) = (if g' = Some g then lo else 0) + group_min g p"

section \<open>Rental dates (rental\_extractor.py)\<close>

record date_info =
  start_date :: string
  end_date :: string
  end_month :: string

text \<open>The pattern \<^verbatim>\<open>(\w{3})\s+(\d{1,2})\s*-\s*(\w{3})\s+(\d{1,2})\<close>.\<close>

definition date_pattern :: "atom list" where
  "date_pattern =
     [Rep WordChar 3 (Some 3) (Some 0), Rep Space 1 None None,
      Rep Digit 1 (Some 2) (Some 1), Rep Space 0 None None,
      Rep (Lit CHR ''-'') 1 (Some 1) None, Rep Space 0 None None,
      Rep WordChar 3 (Some 3) (Some 2), Rep Space 1 None None,
      Rep Digit 1 (Some 2) (Some 3)]"

definition parse_date_range :: "string \<Rightarrow> date_info option" where
  "parse_date_range date_text =
     (case re_match 4 date_pattern (strip date_text) of
        Some [start_mon, start_day, end_mon, end_day] \<Rightarrow>
          Some \<lparr>start_date = start_mon @ '' '' @ start_day,
                end_date = end_mon @ '' '' @ end_day,
                end_month = end_mon\<rparr>
      | _ \<Rightarrow> None)"

text \<open>
  \<open>is_rental_in_target_month\<close>: false while no target month is set (\<open>None\<close> or the empty
  string); a parsed \<open>date_info\<close> is a dictionary of three keys and never empty.
\<close>

definition is_rental_in_target_month :: "string option \<Rightarrow> date_info \<Rightarrow> bool" where
  "is_rental_in_target_month target_month d =
     (case target_month of
        None \<Rightarrow> False
      | Some m \<Rightarrow> if m = [] then False else end_month d = m)"

section \<open>Exceptions\<close>

text \<open>
  The exceptions the repository raises itself, by their Python class and message;
  \<open>External\<close> is a failure raised by a collaborator (the browser, the file system),
  with the text \<open>str(e)\<close> gives.
\<close>

datatype exn =
  RuntimeError string
| ValueError string
| AttributeError string
| KeyError string
| IndexError string
| External string

fun str_of_exn :: "exn \<Rightarrow> string" where
  "str_of_exn (RuntimeError m) = m"
| "str_of_exn (ValueError m) = m"
| "str_of_exn (AttributeError m) = m"
| "str_of_exn (KeyError m) = m"
| "str_of_exn (IndexError m) = m"
| "str_of_exn (External m) = m"

definition not_connected :: exn where
  "not_connected = RuntimeError ''No page connected. Call connect_to_browser() first.''"

section \<open>Receipt cost rows and income (receipt\_processor.py)\<close>

text \<open>
  Amounts are exact rationals: a decimal text denotes the rational it writes, and the fee
  rate \<open>0.10\<close> is one tenth. The rounding of binary floating point is outside the model.
\<close>

definition digit_value :: "char \<Rightarrow> nat" where
  "digit_value c = (case map_of (zip ''0123456789'' [0..<10]) c of Some d \<Rightarrow> d | None \<Rightarrow> 0)"

definition digits_value :: "string \<Rightarrow> nat" where
  "digits_value ds = foldl (\<lambda>n c. 10 * n + digit_value c) 0 ds"

text \<open>
  \<open>float(t)\<close> on the texts the amount pattern can hand over once the commas are gone:
  digits with at most one decimal point. Without any digit (the empty text, a lone
  point) Python raises \<open>ValueError\<close>.
\<close>

definition float_of :: "string \<Rightarrow> exn + rat" where
  "float_of t =
     (let whole = takeWhile is_digit t; r = dropWhile is_digit t
      in if r = [] then
           (if whole = [] then Inl (ValueError ''could not convert string to float'')
            else Inr (of_nat (digits_value whole)))
         else if hd r = CHR ''.'' \<and> list_all is_digit (tl r) \<and> (whole \<noteq> [] \<or> tl r \<noteq> []) then
           Inr (of_nat (digits_value whole) + of_nat (digits_value (tl r)) / 10 ^ length (tl r))
         else Inl (ValueError ''could not convert string to float''))"

text \<open>The pattern \<^verbatim>\<open>[\$]?([\d,]+\.?\d*)\<close>.\<close>

definition amount_pattern :: "atom list" where
  "amount_pattern =
     [Rep (Lit CHR ''$'') 0 (Some 1) None,
      Rep (Alt Digit (Lit CHR '','')) 1 None (Some 0),
      Rep (Lit CHR ''.'') 0 (Some 1) (Some 0),
      Rep Digit 0 None (Some 0)]"

text \<open>
  What the HTML parser hands to \<open>extract_cost_details\<close>. A \<open>cell\<close> is a child \<open>div\<close> of a
  row: \<open>span_text\<close> is \<open>get_text(strip=True)\<close> of its first \<open>span\<close>, if it has one, and
  \<open>div_text\<close> is \<open>get_text(strip=True)\<close> of the \<open>div\<close> itself. A row is the list of its
  direct child \<open>div\<close>s; the section is the list of its rows, \<open>None\<close> when the document has
  no \<open>div\<close> marked \<open>cost-details-section\<close>.
\<close>

record cell =
  span_text :: "string option"
  div_text :: string

type_synonym cost_row = "cell list"

type_synonym cost_breakdown = "(string \<times> rat) list"

definition cell_text :: "cell \<Rightarrow> string" where
  "cell_text d = (case span_text d of Some t \<Rightarrow> t | None \<Rightarrow> div_text d)"

text \<open>The sign rule of line 172.\<close>

definition signed_amount :: "string \<Rightarrow> string \<Rightarrow> rat \<Rightarrow> rat" where
  "signed_amount label value_text numeric_value =
     (if str_contains ''-'' value_text \<or> str_contains ''discount'' (lower label)
      then - \<bar>numeric_value\<bar> else numeric_value)"

text \<open>
  One row of the loop: \<open>Inr None\<close> when the row stores nothing, \<open>Inr (Some (label, amount))\<close>
  when it stores an entry, \<open>Inl\<close> when \<open>float\<close> raises.
\<close>

definition cost_row_entry :: "cost_row \<Rightarrow> exn + (string \<times> rat) option" where
  "cost_row_entry child_divs =
     (case child_divs of
        label_div # value_div # _ \<Rightarrow>
          (let label = cell_text label_div; value_text = cell_text value_div
           in if label \<noteq> [] \<and> value_text \<noteq> [] then
                (case re_search 1 amount_pattern value_text of
                   None \<Rightarrow> Inr None
                 | Some gs \<Rightarrow>
                     (case float_of (remove_char CHR '','' (gs ! 0)) of
                        Inl e \<Rightarrow> Inl e
                      | Inr numeric_value \<Rightarrow>
                          Inr (Some (label, signed_amount label value_text numeric_value))))
              else Inr None)
      | _ \<Rightarrow> Inr None)"

text \<open>
  The loop over the rows. \<open>cost_breakdown[label] = numeric_value\<close> on a dictionary is
  \<open>AList.update\<close>: a new label goes to the end, a known one keeps its place.
\<close>

fun cost_rows :: "cost_row list \<Rightarrow> cost_breakdown \<Rightarrow> exn + cost_breakdown" where
  "cost_rows [] cb = Inr cb"
| "cost_rows (row_div # rest) cb =
     (case cost_row_entry row_div of
        Inl e \<Rightarrow> Inl e
      | Inr None \<Rightarrow> cost_rows rest cb
      | Inr (Some (label, numeric_value)) \<Rightarrow> cost_rows rest (AList.update label numeric_value cb))"

definition extract_cost_details :: "cost_row list option \<Rightarrow> exn + cost_breakdown" where
  "extract_cost_details cost_section =
     (case cost_section of None \<Rightarrow> Inr [] | Some row_divs \<Rightarrow> cost_rows row_divs [])"

record income =
  trip_price :: rat
  discounts :: rat
  net_amount :: rat
  turo_fee :: rat
  final_income :: rat

definition calculate_income :: "cost_breakdown \<Rightarrow> income" where
  "calculate_income cb =
     (let trip = (case map_of cb ''Trip price'' of Some v \<Rightarrow> v | None \<Rightarrow> 0);
          disc = sum_list (map snd
                   (filter (\<lambda>(key, v). str_contains ''discount'' (lower key) \<and> v < 0) cb));
          net = trip + disc;
          fee = net * (1 / 10);
          final = net - fee
      in \<lparr>trip_price = trip, discounts = disc, net_amount = net, turo_fee = fee,
          final_income = final\<rparr>)"

section \<open>The round-trip navigator (crawler.py)\<close>

text \<open>
  A link is the dictionary \<open>get_all_hrefs\<close> builds; the navigator reads its keys
  \<open>href\<close> and \<open>text\<close> and carries the rest along.
\<close>

record link =
  href :: string
  link_text :: string
  other_keys :: "(string \<times> string) list"

record page_snapshot =
  snapshot_url :: string
  snapshot_title :: string
  snapshot_timestamp :: string
  meta_tags :: "(string \<times> string) list"
  snapshot_links :: "(string \<times> string \<times> string) list"
  text_content :: string
  images :: "(string \<times> string \<times> string) list"

text \<open>
  A navigation result is a dictionary; a key that is absent is \<open>None\<close>. The loop puts
  \<open>index\<close>, \<open>original_link\<close> and \<open>timestamp\<close> in every result.
\<close>

record nav_result =
  index :: nat
  original_link :: link
  current_url :: "string option"
  page_title :: "string option"
  timestamp :: string
  screenshot_path :: "string option"
  data_path :: "string option"
  page_data :: "page_snapshot option"
  error :: "string option"

text \<open>
  What the browser and the file system answer during one iteration of the loop.
  \<open>page.goto\<close> either loads the URL it was given, and the page is then on that URL, or
  raises: \<open>GotoFailed msg url\<close> carries \<open>str(e)\<close> and the URL the page is left on
  (after a failed visit the return step follows at once, so only the URL a failed return
  leaves matters). The
  other calls return a value (\<open>Inr\<close>) or raise (\<open>Inl\<close> with \<open>str(e)\<close>).
  \<open>connect_to_browser\<close> returns \<open>False\<close> (\<open>None\<close>, and \<open>self.page\<close> stays as it is) or
  \<open>True\<close> after setting \<open>self.page\<close> to the first page of the browser, whose URL it gives.
\<close>

datatype goto_result = Loaded | GotoFailed string string

record step_env =
  goto_target :: goto_result
  title_read :: "string + string"
  capture_time :: string
  screenshot :: "string + string"
  get_data :: "string + page_snapshot"
  save_data :: "string + string"
  error_time :: string
  goto_origin :: goto_result
  reconnect :: "string option"

text \<open>
  The session: the URL of the page it holds (\<open>None\<close> before \<open>connect_to_browser\<close>), and
  the calls made on the browser so far, oldest first.
\<close>

datatype event = Goto string | Reconnect

record session =
  page :: "string option"
  trace :: "event list"

text \<open>The dictionary of the \<open>except\<close> branch (lines 210 to 215).\<close>

definition failed_result :: "nat \<Rightarrow> link \<Rightarrow> string \<Rightarrow> step_env \<Rightarrow> nav_result" where
  "failed_result i link_info msg e =
     \<lparr>index = i, original_link = link_info, current_url = None, page_title = None,
      timestamp = error_time e, screenshot_path = None, data_path = None, page_data = None,
      error = Some msg\<rparr>"

text \<open>
  The \<open>try\<close> block of one iteration (lines 170 to 215): the result appended for target
  \<open>i\<close>. Any call that raises sends control to the \<open>except\<close> branch, which appends the
  failure dictionary instead of the one under construction.
\<close>

definition visit :: "bool \<Rightarrow> bool \<Rightarrow> nat \<Rightarrow> link \<Rightarrow> step_env \<Rightarrow> nav_result" where
  "visit take_screenshot extract_data i link_info e =
     (case goto_target e of
        GotoFailed msg _ \<Rightarrow> failed_result i link_info msg e
      | Loaded \<Rightarrow>
     (case title_read e of
        Inl msg \<Rightarrow> failed_result i link_info msg e
      | Inr title \<Rightarrow>
     (case (if take_screenshot then
              (case screenshot e of Inl msg \<Rightarrow> Inl msg | Inr p \<Rightarrow> Inr (Some p))
            else Inr None) of
        Inl msg \<Rightarrow> failed_result i link_info msg e
      | Inr shot \<Rightarrow>
     (case (if extract_data then
              (case get_data e of
                 Inl msg \<Rightarrow> Inl msg
               | Inr d \<Rightarrow> (case save_data e of Inl msg \<Rightarrow> Inl msg | Inr p \<Rightarrow> Inr (Some p, Some d)))
            else Inr (None, None)) of
        Inl msg \<Rightarrow> failed_result i link_info msg e
      | Inr (dpath, pdata) \<Rightarrow>
          \<lparr>index = i, original_link = link_info, current_url = Some (href link_info),
           page_title = Some title, timestamp = capture_time e, screenshot_path = shot,
           data_path = dpath, page_data = pdata, error = None\<rparr>))))"

text \<open>
  The \<open>for\<close> loop of lines 169 to 227, from target \<open>i\<close> on. \<open>env i\<close> is what the outside
  world answers during iteration \<open>i\<close>. The \<open>break\<close> of line 227 is the branch that
  returns without a recursive call.
\<close>

fun navigate_loop ::
  "bool \<Rightarrow> bool \<Rightarrow> (nat \<Rightarrow> step_env) \<Rightarrow> string \<Rightarrow> nat \<Rightarrow> link list \<Rightarrow> session \<Rightarrow>
   nav_result list \<Rightarrow> nav_result list \<times> session" where
  "navigate_loop ts ed env original_url i [] s results = (results, s)"
| "navigate_loop ts ed env original_url i (link_info # rest) s results =
     (let e = env i;
          results' = results @ [visit ts ed i link_info e];
          tr = trace s @ [Goto (href link_info), Goto original_url]
      in case goto_origin e of
           Loaded \<Rightarrow>
             navigate_loop ts ed env original_url (Suc i) rest
               \<lparr>page = Some original_url, trace = tr\<rparr> results'
         | GotoFailed msg u \<Rightarrow>
             (case reconnect e of
                None \<Rightarrow> (results', \<lparr>page = Some u, trace = tr @ [Reconnect]\<rparr>)
              | Some p \<Rightarrow>
                  navigate_loop ts ed env original_url (Suc i) rest
                    \<lparr>page = Some p, trace = tr @ [Reconnect]\<rparr> results'))"

definition navigate_and_return ::
  "bool \<Rightarrow> bool \<Rightarrow> (nat \<Rightarrow> step_env) \<Rightarrow> link list \<Rightarrow> session \<Rightarrow>
   exn + nav_result list \<times> session" where
  "navigate_and_return take_screenshot extract_data env hrefs s =
     (case page s of
        None \<Rightarrow> Inl not_connected
      | Some original_url \<Rightarrow>
          Inr (navigate_loop take_screenshot extract_data env original_url 0 hrefs s []))"

text \<open>
  Vocabulary for the statements about the loop: an iteration is clean when none of its
  calls raises, and it aborts the run when the return to the origin and the reconnect
  both fail.
\<close>

definition return_failed :: "step_env \<Rightarrow> bool" where
  "return_failed e = (case goto_origin e of Loaded \<Rightarrow> False | GotoFailed _ _ \<Rightarrow> True)"

definition aborts :: "step_env \<Rightarrow> bool" where
  "aborts e = (return_failed e \<and> reconnect e = None)"

definition clean :: "bool \<Rightarrow> bool \<Rightarrow> step_env \<Rightarrow> bool" where
  "clean take_screenshot extract_data e =
     (goto_target e = Loaded \<and> \<not> isl (title_read e) \<and>
      (take_screenshot \<longrightarrow> \<not> isl (screenshot e)) \<and>
      (extract_data \<longrightarrow> \<not> isl (get_data e) \<and> \<not> isl (save_data e)) \<and>
      goto_origin e = Loaded)"

text \<open>The calls one iteration makes on the browser, in order.\<close>

definition step_events :: "string \<Rightarrow> link \<Rightarrow> step_env \<Rightarrow> event list" where
  "step_events original_url link_info e =
     [Goto (href link_info), Goto original_url] @ (if return_failed e then [Reconnect] else [])"

text \<open>
  The number of iterations the loop runs from target \<open>i\<close> on with \<open>n\<close> targets left: it
  stops after the first iteration that aborts.
\<close>

fun iterations :: "(nat \<Rightarrow> step_env) \<Rightarrow> nat \<Rightarrow> nat \<Rightarrow> nat" where
  "iterations env i 0 = 0"
| "iterations env i (Suc n) = (if aborts (env i) then 1 else Suc (iterations env (Suc i) n))"

section \<open>Classes and attribute lookup\<close>

text \<open>
  The four classes of the repository, the methods each class body defines and the
  attributes each \<open>__init__\<close> assigns. \<open>self.name\<close> resolves when \<open>name\<close> is an instance
  attribute or a method of the class or of its base; nothing inherited from \<open>object\<close> has
  one of the names looked up here.
\<close>

datatype py_class = TuroCrawler | TuroVehicleExtractor | RentalExtractor | ReceiptProcessor

fun methods_of :: "py_class \<Rightarrow> string list" where
  "methods_of TuroCrawler =
     [''__init__'', ''connect_to_browser'', ''get_all_hrefs'', ''navigate_and_return'',
      ''navigate_and_return_with_selector'', ''take_screenshot'', ''get_page_data'',
      ''save_page_data'', ''execute_script'', ''wait_for_element'', ''click_element'',
      ''fill_form'', ''close'']"
| "methods_of TuroVehicleExtractor =
     [''__init__'', ''extract_vehicle_listings'', ''save_vehicle_data'']"
| "methods_of RentalExtractor =
     [''__init__'', ''set_target_month'', ''parse_date_range'', ''is_rental_in_target_month'',
      ''extract_rentals_from_page'', ''process_vehicle_rentals'', ''process_all_vehicles'',
      ''save_rental_data'']"
| "methods_of ReceiptProcessor =
     [''__init__'', ''load_vehicle_owners'', ''load_rental_data'', ''create_folder_structure'',
      ''get_owner_for_license_plate'', ''extract_cost_details'', ''calculate_income'',
      ''process_receipt'', ''process_all_receipts'', ''generate_income_table'',
      ''save_summary_report'']"

fun base_of :: "py_class \<Rightarrow> py_class option" where
  "base_of TuroCrawler = None"
| "base_of c = Some TuroCrawler"

definition crawler_attributes :: "string list" where
  "crawler_attributes = [''debug_port'', ''output_dir'', ''browser'', ''context'', ''page'']"

fun init_attributes :: "py_class \<Rightarrow> string list" where
  "init_attributes TuroCrawler = crawler_attributes"
| "init_attributes TuroVehicleExtractor = crawler_attributes @ [''vehicle_data'']"
| "init_attributes RentalExtractor = crawler_attributes @ [''rental_data'', ''target_month'']"
| "init_attributes ReceiptProcessor =
     crawler_attributes @ [''vehicle_owners'', ''rental_data'', ''owner_folders'']"

definition resolves :: "py_class \<Rightarrow> string \<Rightarrow> bool" where
  "resolves c name \<longleftrightarrow>
     name \<in> set (init_attributes c @ methods_of c @
                 (case base_of c of None \<Rightarrow> [] | Some b \<Rightarrow> methods_of b))"

definition quoted :: "string \<Rightarrow> string" where
  "quoted s = CHR 0x27 # s @ [CHR 0x27]"

definition class_name :: "py_class \<Rightarrow> string" where
  "class_name c = (case c of TuroCrawler \<Rightarrow> ''TuroCrawler''
     | TuroVehicleExtractor \<Rightarrow> ''TuroVehicleExtractor''
     | RentalExtractor \<Rightarrow> ''RentalExtractor'' | ReceiptProcessor \<Rightarrow> ''ReceiptProcessor'')"

text \<open>
  \<open>self.name(...)\<close> on an instance of class \<open>c\<close>: \<open>AttributeError\<close> when the name does
  not resolve, else what the call does.
\<close>

definition self_call :: "py_class \<Rightarrow> string \<Rightarrow> (exn + 'a) \<Rightarrow> exn + 'a" where
  "self_call c name body =
     (if resolves c name then body
      else Inl (AttributeError
                 (quoted (class_name c) @ '' object has no attribute '' @ quoted name)))"

section \<open>The browser as the rental and receipt stages see it\<close>

text \<open>
  A rental found on a rentals page, as the page script returns it, and a rental record
  as \<open>process_vehicle_rentals\<close> stores it.
\<close>

record raw_rental =
  rental_link :: string
  date_text :: string
  trip_name :: string
  vehicle_name :: string

record rental_record =
  vehicle_info :: "string list"
  rental_href :: string
  parsed_dates :: date_info

text \<open>What a receipt tab answers, call by call; \<open>Inl\<close> is a call that raises.\<close>

record receipt_env =
  tab_goto :: "string + unit"
  file_stamp :: string
  tab_screenshot :: "string + unit"
  cost_details_html :: "string + cost_row list option option"
  iso_time :: string
  write_details :: "string + unit"
  tab_close :: "string + unit"

text \<open>
  \<open>new_tab\<close>: what \<open>open_new_tab()\<close> does once the name resolves (it raises, or returns a
  page, \<open>True\<close>, or nothing usable, \<open>False\<close>). \<open>rentals_page url\<close>: what loading \<open>url\<close> in
  the tab and running the page script gives (a step that raises, or the rentals found).
  \<open>cost_details_html\<close> of a receipt page is \<open>Inr None\<close> for the empty string and
  \<open>Inr (Some section)\<close> for HTML in which the parser finds \<open>section\<close>.
\<close>

record browser =
  new_tab :: "string + bool"
  rentals_page :: "string \<Rightarrow> string + raw_rental list"
  receipt_page :: "string \<Rightarrow> receipt_env"

definition external :: "string + 'a \<Rightarrow> exn + 'a" where
  "external r = (case r of Inl msg \<Rightarrow> Inl (External msg) | Inr v \<Rightarrow> Inr v)"

section \<open>Rental extraction (rental\_extractor.py)\<close>

definition valid_months :: "string list" where
  "valid_months = [''Jan'', ''Feb'', ''Mar'', ''Apr'', ''May'', ''Jun'',
                   ''Jul'', ''Aug'', ''Sep'', ''Oct'', ''Nov'', ''Dec'']"

text \<open>
  \<open>extract_rentals_from_page\<close>: the guard of line 97 raises outside the \<open>try\<close>; every
  failure inside the \<open>try\<close> is caught and gives the empty list.
\<close>

definition extract_rentals_from_page ::
  "browser \<Rightarrow> string option \<Rightarrow> string \<Rightarrow> exn + raw_rental list" where
  "extract_rentals_from_page w pg vehicle_url =
     (if pg = None then Inl not_connected
      else
        (case self_call RentalExtractor ''open_new_tab'' (external (new_tab w)) of
           Inl e \<Rightarrow> Inr []
         | Inr False \<Rightarrow> Inr []
         | Inr True \<Rightarrow>
             (case rentals_page w (vehicle_url @ ''/rentals'') of
                Inl msg \<Rightarrow> Inr []
              | Inr rentals \<Rightarrow> Inr rentals)))"

text \<open>The loop of lines 172 to 181.\<close>

fun matching_rentals ::
  "string option \<Rightarrow> string list \<Rightarrow> raw_rental list \<Rightarrow> rental_record list" where
  "matching_rentals target_month info [] = []"
| "matching_rentals target_month info (rental # rest) =
     (case parse_date_range (date_text rental) of
        None \<Rightarrow> matching_rentals target_month info rest
      | Some d \<Rightarrow>
          if is_rental_in_target_month target_month d then
            \<lparr>vehicle_info = info, rental_href = rental_link rental, parsed_dates = d\<rparr>
              # matching_rentals target_month info rest
          else matching_rentals target_month info rest)"

text \<open>
  \<open>process_vehicle_rentals\<close> returns a dictionary: one entry under the vehicle URL, or
  none when the extraction raised.
\<close>

definition process_vehicle_rentals ::
  "browser \<Rightarrow> string option \<Rightarrow> string option \<Rightarrow> string \<Rightarrow> string list \<Rightarrow>
   (string \<times> rental_record list) list" where
  "process_vehicle_rentals w pg target_month vehicle_url info =
     (case extract_rentals_from_page w pg vehicle_url of
        Inl e \<Rightarrow> []
      | Inr all_rentals \<Rightarrow> [(vehicle_url, matching_rentals target_month info all_rentals)])"

text \<open>Lines 219 to 221: every plate of every owner.\<close>

definition allowed_license_plates :: "(string \<times> string list) list \<Rightarrow> string set" where
  "allowed_license_plates vehicle_owners = (\<Union>(owner, plates) \<in> set vehicle_owners. set plates)"

text \<open>Lines 227 to 237: the vehicles kept, a dictionary built entry by entry.\<close>

fun filter_vehicles ::
  "string set \<Rightarrow> (string \<times> string list) list \<Rightarrow> (string \<times> string list) list \<Rightarrow>
   (string \<times> string list) list" where
  "filter_vehicles allowed [] filtered = filtered"
| "filter_vehicles allowed ((vehicle_url, info) # rest) filtered =
     (if 3 \<le> length info then
        (if info ! 2 \<in> allowed
         then filter_vehicles allowed rest (AList.update vehicle_url info filtered)
         else filter_vehicles allowed rest filtered)
      else filter_vehicles allowed rest filtered)"

text \<open>Lines 243 to 255: \<open>dict.update\<close> with the dictionary of one vehicle.\<close>

fun rentals_loop ::
  "browser \<Rightarrow> string option \<Rightarrow> string option \<Rightarrow> (string \<times> string list) list \<Rightarrow>
   (string \<times> rental_record list) list \<Rightarrow> (string \<times> rental_record list) list" where
  "rentals_loop w pg target_month [] acc = acc"
| "rentals_loop w pg target_month ((vehicle_url, info) # rest) acc =
     rentals_loop w pg target_month rest
       (fold (\<lambda>(k, v). AList.update k v)
          (process_vehicle_rentals w pg target_month vehicle_url info) acc)"

text \<open>
  \<open>process_all_vehicles\<close>. \<open>loaded\<close> is what reading the two JSON files gives: the
  \<open>vehicles\<close> and \<open>vehicle_owners\<close> dictionaries, or a failure.
\<close>

definition process_all_vehicles ::
  "browser \<Rightarrow> string option \<Rightarrow> string option \<Rightarrow>
   string + (string \<times> string list) list \<times> (string \<times> string list) list \<Rightarrow>
   exn + (string \<times> rental_record list) list" where
  "process_all_vehicles w pg target_month loaded =
     (if target_month = None \<or> target_month = Some [] then
        Inl (ValueError ''Target month not set. Call set_target_month() first.'')
      else
        (case loaded of
           Inl msg \<Rightarrow> Inr []
         | Inr (vehicles, vehicle_owners) \<Rightarrow>
             Inr (rentals_loop w pg target_month
                    (filter_vehicles (allowed_license_plates vehicle_owners) vehicles []) [])))"

section \<open>Receipt processing (receipt\_processor.py)\<close>

text \<open>
  The dictionary \<open>process_receipt\<close> returns; a key that is absent is \<open>None\<close>. The four
  leading keys are in every return path.
\<close>

record receipt =
  receipt_href :: string
  receipt_vehicle :: "string list"
  owner :: string
  license_plate :: string
  receipt_screenshot :: "string option"
  receipt_timestamp :: "string option"
  receipt_costs :: "cost_breakdown option"
  income_calculation :: "income option"
  receipt_error :: "string option"

text \<open>The dictionary of the \<open>except\<close> branch (lines 300 to 306).\<close>

definition receipt_failure :: "string \<Rightarrow> string list \<Rightarrow> string \<Rightarrow> string \<Rightarrow> exn \<Rightarrow> receipt" where
  "receipt_failure rental_url info owner_name plate e =
     \<lparr>receipt_href = rental_url, receipt_vehicle = info, owner = owner_name,
      license_plate = plate, receipt_screenshot = None, receipt_timestamp = None,
      receipt_costs = None, income_calculation = None,
      receipt_error = Some (str_of_exn e)\<rparr>"

text \<open>
  The \<open>try\<close> block of \<open>process_receipt\<close>, step by step: \<open>Inl\<close> is the exception that
  leaves it, \<open>Inr\<close> the dictionary it returns. \<open>owner_folders\<close> maps an owner to the
  folder \<open>create_folder_structure\<close> made.
\<close>

definition receipt_steps ::
  "browser \<Rightarrow> (string \<times> string) list \<Rightarrow> string \<Rightarrow> string list \<Rightarrow> string \<Rightarrow> string \<Rightarrow>
   exn + receipt" where
  "receipt_steps w owner_folders rental_url info owner_name plate =
     (let receipt_url = rental_url @ ''/receipt''; t = receipt_page w receipt_url in
      case self_call ReceiptProcessor ''open_new_tab'' (external (new_tab w)) of
        Inl e \<Rightarrow> Inl e
      | Inr False \<Rightarrow> Inl (RuntimeError ''Failed to open new tab'')
      | Inr True \<Rightarrow>
     (case tab_goto t of
        Inl msg \<Rightarrow> Inl (External msg)
      | Inr _ \<Rightarrow>
     (case map_of owner_folders owner_name of
        None \<Rightarrow> Inl (KeyError (quoted owner_name))
      | Some folder \<Rightarrow>
     (let shot = folder @ ''/'' @ plate @ ''/receipt_'' @ file_stamp t @ ''.png'' in
      case tab_screenshot t of
        Inl msg \<Rightarrow> Inl (External msg)
      | Inr _ \<Rightarrow>
     (case cost_details_html t of
        Inl msg \<Rightarrow> Inl (External msg)
      | Inr None \<Rightarrow>
          (case tab_close t of
             Inl msg \<Rightarrow> Inl (External msg)
           | Inr _ \<Rightarrow>
               Inr \<lparr>receipt_href = rental_url, receipt_vehicle = info, owner = owner_name,
                    license_plate = plate, receipt_screenshot = Some shot,
                    receipt_timestamp = None, receipt_costs = None,
                    income_calculation = None,
                    receipt_error = Some ''No cost details found''\<rparr>)
      | Inr (Some cost_section) \<Rightarrow>
     (case extract_cost_details cost_section of
        Inl e \<Rightarrow> Inl e
      | Inr cb \<Rightarrow>
     (case write_details t of
        Inl msg \<Rightarrow> Inl (External msg)
      | Inr _ \<Rightarrow>
     (case tab_close t of
        Inl msg \<Rightarrow> Inl (External msg)
      | Inr _ \<Rightarrow>
          Inr \<lparr>receipt_href = rental_url, receipt_vehicle = info, owner = owner_name,
               license_plate = plate, receipt_screenshot = Some shot,
               receipt_timestamp = Some (iso_time t), receipt_costs = Some cb,
               income_calculation = Some (calculate_income cb),
               receipt_error = None\<rparr>))))))))"

definition process_receipt ::
  "browser \<Rightarrow> (string \<times> string) list \<Rightarrow> string \<Rightarrow> string list \<Rightarrow> string \<Rightarrow> string \<Rightarrow> receipt" where
  "process_receipt w owner_folders rental_url info owner_name plate =
     (case receipt_steps w owner_folders rental_url info owner_name plate of
        Inl e \<Rightarrow> receipt_failure rental_url info owner_name plate e
      | Inr r \<Rightarrow> r)"

text \<open>\<open>get_owner_for_license_plate\<close>: the first owner, in dictionary order, holding the plate.\<close>

fun get_owner_for_license_plate :: "(string \<times> string list) list \<Rightarrow> string \<Rightarrow> string option" where
  "get_owner_for_license_plate [] plate = None"
| "get_owner_for_license_plate ((owner_name, plates) # rest) plate =
     (if plate \<in> set plates then Some owner_name
      else get_owner_for_license_plate rest plate)"

text \<open>
  The loop of lines 321 to 346 over \<open>rental_data\<close>. The vehicle of an entry is the
  \<open>vehicle_info\<close> of its first rental; \<open>if not owner_name\<close> also skips an owner whose
  name is the empty string.
\<close>

fun receipts_loop ::
  "browser \<Rightarrow> (string \<times> string) list \<Rightarrow> (string \<times> string list) list \<Rightarrow>
   (string \<times> rental_record list) list \<Rightarrow> receipt list \<Rightarrow> receipt list" where
  "receipts_loop w owner_folders vehicle_owners [] all_results = all_results"
| "receipts_loop w owner_folders vehicle_owners ((vehicle_url, rentals) # rest) all_results =
     (case rentals of
        [] \<Rightarrow> receipts_loop w owner_folders vehicle_owners rest all_results
      | first # _ \<Rightarrow>
          (let info = vehicle_info first in
           if length info < 3 then receipts_loop w owner_folders vehicle_owners rest all_results
           else
             (let plate = info ! 2 in
              case get_owner_for_license_plate vehicle_owners plate of
                None \<Rightarrow> receipts_loop w owner_folders vehicle_owners rest all_results
              | Some owner_name \<Rightarrow>
                  if owner_name = [] then
                    receipts_loop w owner_folders vehicle_owners rest all_results
                  else
                    receipts_loop w owner_folders vehicle_owners rest
                      (all_results @
                        map (\<lambda>rental. process_receipt w owner_folders (rental_href rental)
                                         info owner_name plate) rentals))))"

definition process_all_receipts ::
  "browser \<Rightarrow> (string \<times> string) list \<Rightarrow> (string \<times> string list) list \<Rightarrow>
   (string \<times> rental_record list) list \<Rightarrow> receipt list" where
  "process_all_receipts w owner_folders vehicle_owners rental_data =
     (if vehicle_owners = [] \<or> rental_data = [] then []
      else receipts_loop w owner_folders vehicle_owners rental_data [])"

text \<open>
  The aggregation of \<open>generate_income_table\<close> (lines 361 to 383): per owner, per plate,
  the vehicle name, the summed income and the number of receipts. A result with an
  \<open>error\<close> key is passed over; reading a key or an index that is not there raises.
\<close>

type_synonym plate_summary = "string \<times> rat \<times> nat"

type_synonym owner_summary = "(string \<times> (string \<times> plate_summary) list) list"

definition add_receipt :: "string \<Rightarrow> string \<Rightarrow> string \<Rightarrow> rat \<Rightarrow> owner_summary \<Rightarrow> owner_summary" where
  "add_receipt own plate name inc summary =
     (let vehicles = (case map_of summary own of None \<Rightarrow> [] | Some vs \<Rightarrow> vs);
          (vname, total, n) = (case map_of vehicles plate of None \<Rightarrow> (name, 0, 0) | Some d \<Rightarrow> d)
      in AList.update own (AList.update plate (vname, total + inc, Suc n) vehicles) summary)"

fun summarise :: "receipt list \<Rightarrow> owner_summary \<Rightarrow> exn + owner_summary" where
  "summarise [] summary = Inr summary"
| "summarise (result # rest) summary =
     (if receipt_error result \<noteq> None then summarise rest summary
      else
        (case receipt_vehicle result of
           [] \<Rightarrow> Inl (IndexError ''list index out of range'')
         | name # _ \<Rightarrow>
             (case income_calculation result of
                None \<Rightarrow> Inl (KeyError (quoted ''income_calculation''))
              | Some inc \<Rightarrow>
                  summarise rest
                    (add_receipt (owner result) (license_plate result) name
                       (final_income inc) summary))))"

text \<open>The total of \<open>save_summary_report\<close> (lines 438 to 442).\<close>

fun total_income :: "receipt list \<Rightarrow> exn + rat" where
  "total_income [] = Inr 0"
| "total_income (r # rest) =
     (if receipt_error r \<noteq> None then total_income rest
      else
        (case income_calculation r of
           None \<Rightarrow> Inl (KeyError (quoted ''income_calculation''))
         | Some inc \<Rightarrow>
             (case total_income rest of Inl e \<Rightarrow> Inl e | Inr t \<Rightarrow> Inr (final_income inc + t))))"

section \<open>Vehicle listings (extract\_vehicle\_from\_listing.py)\<close>

text \<open>
  The page script of \<open>extract_vehicle_listings\<close> runs in the browser. A card is what the
  script reads of one \<open>a[data-testid=vehicle-listing-details-card]\<close>: its \<open>href\<close>, its
  main title element if it has one (the \<open>title\<close> attribute, \<open>None\<close> when absent, and the
  text content), and the \<open>title\<close> attributes of its subtitle elements in document order.
\<close>

record title_element =
  title_attribute :: "string option"
  element_text :: string

record card =
  card_href :: string
  main_title :: "title_element option"
  subtitles :: "string option list"

text \<open>\<open>String.prototype.trim\<close>: JavaScript's white space among the code points below 256.\<close>

definition is_js_space :: "char \<Rightarrow> bool" where
  "is_js_space c \<longleftrightarrow>
     c \<in> set [CHR 0x09, CHR 0x0A, CHR 0x0B, CHR 0x0C, CHR 0x0D, CHR '' '', CHR 0xA0]"

definition js_trim :: "string \<Rightarrow> string" where
  "js_trim s = rev (dropWhile is_js_space (rev (dropWhile is_js_space s)))"

text \<open>A template literal around an attribute value: \<open>null\<close> prints as the text \<open>null\<close>.\<close>

definition js_string :: "string option \<Rightarrow> string" where
  "js_string v = (case v of None \<Rightarrow> ''null'' | Some t \<Rightarrow> t)"

text \<open>
  The body of the \<open>forEach\<close> callback up to line 68: the details of one card, or the
  \<open>TypeError\<close> that reading a property of \<open>undefined\<close> throws when the card has fewer
  than two subtitle elements.
\<close>

definition card_details :: "card \<Rightarrow> string + string list" where
  "card_details c =
     (let details =
            (case main_title c of
               None \<Rightarrow> []
             | Some el \<Rightarrow>
                 (let title = (case title_attribute el of
                                 None \<Rightarrow> js_trim (element_text el)
                               | Some a \<Rightarrow> if a = [] then js_trim (element_text el) else a)
                  in if title \<noteq> [] then [title] else []))
      in case subtitles c of
           s1 # s2 # _ \<Rightarrow> Inr (details @ [js_string s1, js_string s2])
         | _ \<Rightarrow> Inl ''TypeError: Cannot read properties of undefined (reading getAttribute)'')"

text \<open>
  The \<open>forEach\<close> over the cards: an exception thrown by the callback ends the whole
  script. \<open>vehicles[href] = details\<close> on an object keeps the place of a known key.
\<close>

fun listing_script :: "card list \<Rightarrow> (string \<times> string list) list \<Rightarrow> string + (string \<times> string list) list" where
  "listing_script [] vehicles = Inr vehicles"
| "listing_script (c # rest) vehicles =
     (case card_details c of
        Inl err \<Rightarrow> Inl err
      | Inr details \<Rightarrow>
          if 0 < length details
          then listing_script rest (AList.update (card_href c) details vehicles)
          else listing_script rest vehicles)"

text \<open>
  \<open>extract_vehicle_listings\<close>: the result, and the value of \<open>self.vehicle_data\<close> after the
  call. A script that throws makes \<open>page.evaluate\<close> raise; the \<open>except\<close> branch returns the
  empty dictionary.
\<close>

definition extract_vehicle_listings ::
  "string option \<Rightarrow> card list \<Rightarrow> (string \<times> string list) list \<Rightarrow>
   exn + (string \<times> string list) list \<times> (string \<times> string list) list" where
  "extract_vehicle_listings pg cards vehicle_data =
     (if pg = None then Inl not_connected
      else
        (case listing_script cards [] of
           Inl err \<Rightarrow> Inr ([], vehicle_data)
         | Inr vehicles \<Rightarrow> Inr (vehicles, vehicles)))"

section \<open>Sample inputs\<close>

text \<open>A receipt with a trip price and a discount whose value is rendered without a sign.\<close>

definition receipt_rows :: "cost_row list" where
  "receipt_rows =
     [[\<lparr>span_text = Some ''Trip price'', div_text = ''Trip price''\<rparr>,
       \<lparr>span_text = Some ''$490.00'', div_text = ''$490.00''\<rparr>],
      [\<lparr>span_text = None, div_text = ''Weekly Discount''\<rparr>,
       \<lparr>span_text = None, div_text = ''$21.56''\<rparr>]]"

text \<open>Three targets, an origin, and what the outside world may answer during a visit.\<close>

definition sample_links :: "link list" where
  "sample_links =
     [\<lparr>href = ''https://turo.com/a'', link_text = ''A'', other_keys = []\<rparr>,
      \<lparr>href = ''https://turo.com/b'', link_text = ''B'', other_keys = []\<rparr>,
      \<lparr>href = ''https://turo.com/c'', link_text = ''C'', other_keys = []\<rparr>]"

definition origin_session :: session where
  "origin_session = \<lparr>page = Some ''https://turo.com/trips'', trace = []\<rparr>"

definition empty_snapshot :: page_snapshot where
  "empty_snapshot =
     \<lparr>snapshot_url = [], snapshot_title = [], snapshot_timestamp = [], meta_tags = [],
      snapshot_links = [], text_content = [], images = []\<rparr>"

definition clean_env :: step_env where
  "clean_env =
     \<lparr>goto_target = Loaded, title_read = Inr ''Trip'', capture_time = ''t0'',
      screenshot = Inr ''shot.png'', get_data = Inr empty_snapshot,
      save_data = Inr ''data.json'', error_time = ''t1'', goto_origin = Loaded,
      reconnect = None\<rparr>"

text \<open>
  A run in which the first visit times out, the return after the second visit fails and
  the reconnect fails too.
\<close>

definition failing_run :: "nat \<Rightarrow> step_env" where
  "failing_run i =
     (if i = 0 then clean_env\<lparr>goto_target := GotoFailed ''Timeout'' ''about:blank''\<rparr>
      else if i = 1 then clean_env\<lparr>goto_origin := GotoFailed ''Target closed'' ''about:blank''\<rparr>
      else clean_env)"

text \<open>
  Two listing cards: one complete, one with a main title and no subtitle element.
\<close>

definition good_card :: card where
  "good_card =
     \<lparr>card_href = ''https://turo.com/vehicle/1'',
      main_title = Some \<lparr>title_attribute = None, element_text = '' Tesla Model 3 2020 ''\<rparr>,
      subtitles = [Some ''Long Range'', Some ''ABC123'']\<rparr>"

definition bare_card :: card where
  "bare_card =
     \<lparr>card_href = ''https://turo.com/vehicle/2'',
      main_title = Some \<lparr>title_attribute = Some ''BMW X5 2019'', element_text = []\<rparr>,
      subtitles = []\<rparr>"

text \<open>
  A browser in which a tab, could one be opened, would show one rental per vehicle and a
  receipt with a trip price; an owner index with one owner and one plate; two listed
  vehicles, of which only the first has its plate in the index; and the rentals of both.
\<close>

definition sample_receipt_env :: receipt_env where
  "sample_receipt_env =
     \<lparr>tab_goto = Inr (), file_stamp = ''20250722_194649'', tab_screenshot = Inr (),
      cost_details_html = Inr (Some (Some receipt_rows)), iso_time = ''2025-07-22T19:46:49'',
      write_details = Inr (), tab_close = Inr ()\<rparr>"

definition sample_browser :: browser where
  "sample_browser =
     \<lparr>new_tab = Inr True,
      rentals_page = (\<lambda>url. Inr [\<lparr>rental_link = ''https://turo.com/reservation/7'',
                                  date_text = ''Jul 28 - Aug 2'', trip_name = [],
                                  vehicle_name = []\<rparr>]),
      receipt_page = (\<lambda>url. sample_receipt_env)\<rparr>"

definition sample_owners :: "(string \<times> string list) list" where
  "sample_owners = [(''Richard'', [''ABC123''])]"

definition sample_vehicles :: "(string \<times> string list) list" where
  "sample_vehicles =
     [(''https://turo.com/vehicle/1'', [''Tesla Model 3 2020'', ''Long Range'', ''ABC123'']),
      (''https://turo.com/vehicle/2'', [''BMW X5 2019'', ''xDrive'', ''ZZZ999''])]"

definition sample_dates :: date_info where
  "sample_dates = \<lparr>start_date = ''Jul 28'', end_date = ''Aug 2'', end_month = ''Aug''\<rparr>"

definition sample_rental_data :: "(string \<times> rental_record list) list" where
  "sample_rental_data =
     [(''https://turo.com/vehicle/1'',
       [\<lparr>vehicle_info = [''Tesla Model 3 2020'', ''Long Range'', ''ABC123''],
         rental_href = ''https://turo.com/reservation/7'', parsed_dates = sample_dates\<rparr>]),
      (''https://turo.com/vehicle/2'',
       [\<lparr>vehicle_info = [''BMW X5 2019'', ''xDrive'', ''ZZZ999''],
         rental_href = ''https://turo.com/reservation/8'', parsed_dates = sample_dates\<rparr>])]"

section \<open>The matcher\<close>

lemma try_down_first: "lo \<le> n \<Longrightarrow> f n = Some r \<Longrightarrow> try_down lo n f = Some r"
  by (cases n) auto

lemma try_down_Some:
  "try_down lo n f = Some r \<Longrightarrow> \<exists>k. lo \<le> k \<and> k \<le> n \<and> f k = Some r"
proof (induction n)
  case 0
  then show ?case by (auto split: if_splits)
next
  case (Suc n)
  show ?case
  proof (cases "f (Suc n)")
    case None
    with Suc.prems have "try_down lo n f = Some r" by (simp split: if_splits)
    from Suc.IH [OF this] show ?thesis by (auto intro: le_SucI)
  next
    case (Some r')
    with Suc.prems have "lo \<le> Suc n \<and> Suc n \<le> Suc n \<and> f (Suc n) = Some r"
      by (auto split: if_splits)
    then show ?thesis by blast
  qed
qed

lemma try_down_None:
  "try_down lo n f = None \<Longrightarrow> lo \<le> k \<Longrightarrow> k \<le> n \<Longrightarrow> f k = None"
proof (induction n)
  case 0
  then show ?case by (auto split: if_splits)
next
  case (Suc n)
  show ?case
  proof (cases "k = Suc n")
    case True
    with Suc.prems show ?thesis by (auto split: if_splits option.splits)
  next
    case False
    with Suc.prems have "k \<le> n" by simp
    moreover from Suc.prems have "try_down lo n f = None"
      by (auto split: if_splits option.splits)
    ultimately show ?thesis using Suc.IH Suc.prems(2) by simp
  qed
qed

lemma length_capture: "length (capture g txt gs) = length gs"
  by (cases g) simp_all

lemma match_here_length: "match_here ng p s = Some gs \<Longrightarrow> length gs = ng"
proof (induction p arbitrary: s gs)
  case Nil
  then show ?case by auto
next
  case (Cons a p)
  obtain c lo hi g where a: "a = Rep c lo hi g" by (cases a)
  from Cons.prems [unfolded a] obtain k gs' where
    "match_here ng p (drop k s) = Some gs'" "gs = capture g (take k s) gs'"
    by (auto simp: Let_def dest!: try_down_Some)
  with Cons.IH show ?case by (simp add: length_capture)
qed

lemma takeWhile_length_prefix:
  "list_all P x \<Longrightarrow> length x \<le> length (takeWhile P (x @ t))"
  by (simp add: takeWhile_append2 list_all_iff)

lemma take_takeWhile_all:
  assumes "k \<le> length (takeWhile P s)"
  shows "list_all P (take k s)"
  unfolding list_all_length
proof (intro allI impI)
  fix i assume "i < length (take k s)"
  then have i: "i < k" "i < length s" by simp_all
  with assms have it: "i < length (takeWhile P s)" by simp
  then have "takeWhile P s ! i = s ! i" by (rule takeWhile_nth)
  moreover from it have "takeWhile P s ! i \<in> set (takeWhile P s)" by (rule nth_mem)
  ultimately have "P (s ! i)" by (auto dest: set_takeWhileD)
  with i show "P (take k s ! i)" by simp
qed

lemma match_here_shape:
  "(\<exists>gs. match_here ng p s = Some gs) \<longleftrightarrow> has_shape p s"
proof (induction p arbitrary: s)
  case Nil
  then show ?case by (simp add: has_shape_def)
next
  case (Cons a p)
  obtain c lo hi g where a: "a = Rep c lo hi g" by (cases a)
  let ?avail = "length (takeWhile (in_class c) s)"
  let ?n = "case hi of None \<Rightarrow> ?avail | Some h \<Rightarrow> min h ?avail"
  let ?f = "\<lambda>k. map_option (capture g (take k s)) (match_here ng p (drop k s))"
  have def: "match_here ng (a # p) s = try_down lo ?n ?f"
    by (simp add: a Let_def)
  show ?case
  proof
    assume "\<exists>gs. match_here ng (a # p) s = Some gs"
    then obtain gs where "try_down lo ?n ?f = Some gs" by (auto simp: def)
    from try_down_Some [OF this] obtain k gs' where
      k: "lo \<le> k" "k \<le> ?n" and m: "match_here ng p (drop k s) = Some gs'"
      by auto
    from m Cons.IH [of "drop k s"] obtain parts rest where
      pr: "list_all2 fits p parts" "drop k s = concat parts @ rest"
      by (auto simp: has_shape_def)
    from k(2) have ka: "k \<le> ?avail" by (cases hi) simp_all
    then have kl: "k \<le> length s"
      using length_takeWhile_le [of "in_class c" s] by simp
    have "fits a (take k s)"
      using k ka kl take_takeWhile_all [OF ka] by (cases hi) (simp_all add: a)
    with pr(1) have "list_all2 fits (a # p) (take k s # parts)" by simp
    moreover have "s = concat (take k s # parts) @ rest"
    proof -
      have "concat (take k s # parts) @ rest = take k s @ (concat parts @ rest)" by simp
      also have "\<dots> = take k s @ drop k s" by (simp only: pr(2))
      also have "\<dots> = s" by simp
      finally show ?thesis by (rule sym)
    qed
    ultimately show "has_shape (a # p) s" unfolding has_shape_def by blast
  next
    assume "has_shape (a # p) s"
    then obtain parts rest where
      pr: "list_all2 fits (a # p) parts" "s = concat parts @ rest"
      by (auto simp: has_shape_def)
    from pr(1) obtain x parts' where x: "parts = x # parts'" "fits a x" "list_all2 fits p parts'"
      by (cases parts) auto
    from pr(2) x(1) have s: "s = x @ (concat parts' @ rest)" by simp
    from x(2) have fx: "list_all (in_class c) x" "lo \<le> length x"
      "case hi of None \<Rightarrow> True | Some h \<Rightarrow> length x \<le> h"
      by (simp_all add: a)
    have "length x \<le> ?avail" unfolding s by (rule takeWhile_length_prefix [OF fx(1)])
    with fx(3) have len: "length x \<le> ?n" by (cases hi) simp_all
    have "has_shape p (drop (length x) s)"
      unfolding has_shape_def using x(3) s by auto
    with Cons.IH [of "drop (length x) s"] obtain gs' where
      "match_here ng p (drop (length x) s) = Some gs'" by auto
    then have "?f (length x) \<noteq> None" by simp
    with try_down_None [of lo ?n ?f "length x"] fx(2) len
    have "try_down lo ?n ?f \<noteq> None" by blast
    then show "\<exists>gs. match_here ng (a # p) s = Some gs" by (auto simp: def)
  qed
qed

section \<open>Income calculation\<close>

lemma discount_sum_nonpos:
  "sum_list (map snd (filter (\<lambda>(key, v). P key \<and> v < (0::rat)) cb)) \<le> 0"
  by (induction cb) auto

text \<open>
  Claim C3. \<open>calculate_income\<close> is a function of the cost breakdown alone: the trip
  price is the entry under the literal label \<open>Trip price\<close>, zero when there is none; the
  discounts are the sum of the negative entries whose label contains \<open>discount\<close> in any
  letter case, hence never positive; the net amount is their sum, the fee one tenth of
  it, the final income the rest. The breakdown of the specification (490.00 and a weekly
  discount of -21.56) gives 468.44, 46.844 and 421.596, and a breakdown with no trip
  price and no negative discount entry gives zero throughout.
\<close>

theorem calculate_income_spec:
  "trip_price (calculate_income cb) = (case map_of cb ''Trip price'' of Some v \<Rightarrow> v | None \<Rightarrow> 0)
   \<and> discounts (calculate_income cb) =
       sum_list (map snd (filter (\<lambda>(key, v). str_contains ''discount'' (lower key) \<and> v < 0) cb))
   \<and> discounts (calculate_income cb) \<le> 0
   \<and> net_amount (calculate_income cb) =
       trip_price (calculate_income cb) + discounts (calculate_income cb)
   \<and> turo_fee (calculate_income cb) = net_amount (calculate_income cb) * (1 / 10)
   \<and> final_income (calculate_income cb) =
       net_amount (calculate_income cb) - turo_fee (calculate_income cb)
   \<and> calculate_income [(''Trip price'', 490), (''Weekly discount'', - (2156 / 100))] =
       \<lparr>trip_price = 490, discounts = - (2156 / 100), net_amount = 46844 / 100,
        turo_fee = 46844 / 1000, final_income = 421596 / 1000\<rparr>
   \<and> (map_of cb ''Trip price'' = None \<and>
       (\<forall>(key, v) \<in> set cb. \<not> (str_contains ''discount'' (lower key) \<and> v < 0)) \<longrightarrow>
       calculate_income cb =
         \<lparr>trip_price = 0, discounts = 0, net_amount = 0, turo_fee = 0, final_income = 0\<rparr>)"
proof -
  have trip: "trip_price (calculate_income cb) =
      (case map_of cb ''Trip price'' of Some v \<Rightarrow> v | None \<Rightarrow> 0)"
    by (simp add: calculate_income_def Let_def)
  have disc: "discounts (calculate_income cb) =
       sum_list (map snd (filter (\<lambda>(key, v). str_contains ''discount'' (lower key) \<and> v < 0) cb))"
    by (simp add: calculate_income_def Let_def)
  have nonpos: "discounts (calculate_income cb) \<le> 0"
    unfolding disc by (rule discount_sum_nonpos)
  have net: "net_amount (calculate_income cb) =
       trip_price (calculate_income cb) + discounts (calculate_income cb)"
    by (simp add: calculate_income_def Let_def)
  have fee: "turo_fee (calculate_income cb) = net_amount (calculate_income cb) * (1 / 10)"
    by (simp add: calculate_income_def Let_def)
  have final: "final_income (calculate_income cb) =
       net_amount (calculate_income cb) - turo_fee (calculate_income cb)"
    unfolding calculate_income_def Let_def by (simp only: income.simps)
  have ex: "calculate_income [(''Trip price'', 490), (''Weekly discount'', - (2156 / 100))] =
       \<lparr>trip_price = 490, discounts = - (2156 / 100), net_amount = 46844 / 100,
        turo_fee = 46844 / 1000, final_income = 421596 / 1000\<rparr>"
    by (simp add: calculate_income_def lower_def char_lower_def upper_letters_def
        lower_letters_def latin1_upper_def latin1_lower_def)
  have zero: "calculate_income cb =
         \<lparr>trip_price = 0, discounts = 0, net_amount = 0, turo_fee = 0, final_income = 0\<rparr>"
    if "map_of cb ''Trip price'' = None \<and>
       (\<forall>(key, v) \<in> set cb. \<not> (str_contains ''discount'' (lower key) \<and> v < 0))"
  proof -
    from that have "filter (\<lambda>(key, v). str_contains ''discount'' (lower key) \<and> v < 0) cb = []"
      by (auto simp: filter_empty_conv)
    with that show ?thesis by (simp add: calculate_income_def)
  qed
  from trip disc nonpos net fee final ex zero show ?thesis
    by (intro conjI impI)
qed

theorem calculate_income_spec_witness:
  "calculate_income [(''Cleaning fee'', 30), (''Discount'', 0)] =
     \<lparr>trip_price = 0, discounts = 0, net_amount = 0, turo_fee = 0, final_income = 0\<rparr>"
  using calculate_income_spec [of "[(''Cleaning fee'', 30), (''Discount'', 0)]"]
  by simp

section \<open>Cost rows\<close>

lemma set_update_cases:
  "(l, a) \<in> set (AList.update k v al) \<Longrightarrow> (l, a) = (k, v) \<or> (l, a) \<in> set al"
  by (induction al) (auto split: if_splits)

lemma cost_rows_entries:
  "cost_rows rows cb0 = Inr cb \<Longrightarrow> (l, a) \<in> set cb \<Longrightarrow>
   (l, a) \<in> set cb0 \<or> (\<exists>row \<in> set rows. cost_row_entry row = Inr (Some (l, a)))"
proof (induction rows arbitrary: cb0)
  case Nil
  then show ?case by simp
next
  case (Cons row rows)
  show ?case
  proof (cases "cost_row_entry row")
    case (Inl e)
    with Cons.prems show ?thesis by simp
  next
    case (Inr entry)
    show ?thesis
    proof (cases entry)
      case None
      with Inr Cons.prems Cons.IH [of cb0] show ?thesis by auto
    next
      case (Some p)
      obtain k v where p: "p = (k, v)" by (cases p)
      from Some p Inr Cons.prems have "cost_rows rows (AList.update k v cb0) = Inr cb"
        by simp
      from Cons.IH [OF this Cons.prems(2)] Some p Inr show ?thesis
        by (auto dest: set_update_cases)
    qed
  qed
qed

lemma float_of_nonneg: "float_of t = Inr n \<Longrightarrow> 0 \<le> n"
  by (auto simp: float_of_def Let_def split: if_splits)

lemma cost_row_entry_Some:
  assumes "cost_row_entry row = Inr (Some (label, amount))"
  shows "\<exists>label_div value_div more gs n.
           row = label_div # value_div # more \<and> cell_text label_div = label \<and>
           label \<noteq> [] \<and> cell_text value_div \<noteq> [] \<and>
           re_search 1 amount_pattern (cell_text value_div) = Some gs \<and>
           float_of (remove_char CHR '','' (gs ! 0)) = Inr n \<and> 0 \<le> n \<and>
           amount = (if str_contains ''-'' (cell_text value_div) \<or>
                        str_contains ''discount'' (lower label) then - n else n)"
  using assms
  by (auto simp: cost_row_entry_def Let_def signed_amount_def abs_of_nonneg
      dest!: float_of_nonneg split: list.splits if_splits option.splits sum.splits)

lemma receipt_rows_breakdown:
  "extract_cost_details (Some receipt_rows) =
     Inr [(''Trip price'', 490), (''Weekly Discount'', - (2156 / 100))]"
  by code_simp

text \<open>
  Claim C4. Every amount \<open>extract_cost_details\<close> stores comes from a row whose label
  cell gives the label and whose value cell, read by the amount pattern and \<open>float\<close>,
  writes a number \<open>n\<close>, never negative. The stored amount is \<open>- n\<close> when the value text
  contains a minus sign or the label contains \<open>discount\<close> in any letter case, and \<open>n\<close>
  itself, as written, in every other case.
\<close>

theorem extract_cost_details_sign_rule:
  assumes "extract_cost_details (Some rows) = Inr cb" and "(label, amount) \<in> set cb"
  shows "\<exists>label_div value_div more gs n.
           label_div # value_div # more \<in> set rows \<and> cell_text label_div = label \<and>
           re_search 1 amount_pattern (cell_text value_div) = Some gs \<and>
           float_of (remove_char CHR '','' (gs ! 0)) = Inr n \<and> 0 \<le> n \<and>
           amount = (if str_contains ''-'' (cell_text value_div) \<or>
                        str_contains ''discount'' (lower label) then - n else n)"
proof -
  from assms have "cost_rows rows [] = Inr cb"
    by (simp add: extract_cost_details_def)
  from cost_rows_entries [OF this assms(2)]
  obtain row where row: "row \<in> set rows" "cost_row_entry row = Inr (Some (label, amount))"
    by auto
  from cost_row_entry_Some [OF row(2)] row(1) show ?thesis
    by blast
qed

theorem extract_cost_details_sign_rule_witness:
  "extract_cost_details (Some receipt_rows) =
     Inr [(''Trip price'', 490), (''Weekly Discount'', - (2156 / 100))] \<and>
   (\<exists>label_div value_div more gs n.
           label_div # value_div # more \<in> set receipt_rows \<and>
           cell_text label_div = ''Weekly Discount'' \<and>
           re_search 1 amount_pattern (cell_text value_div) = Some gs \<and>
           float_of (remove_char CHR '','' (gs ! 0)) = Inr n \<and> 0 \<le> n \<and>
           - (2156 / 100) = (if str_contains ''-'' (cell_text value_div) \<or>
                        str_contains ''discount'' (lower ''Weekly Discount'') then - n else n))"
  using extract_cost_details_sign_rule
          [OF receipt_rows_breakdown, of "''Weekly Discount''" "- (2156 / 100)"]
    receipt_rows_breakdown
  by simp

section \<open>The navigation loop\<close>

lemma map_upt_Suc_shift: "map f [0..<Suc m] = f 0 # map (\<lambda>j. f (Suc j)) [0..<m]"
  by (simp add: upt_conv_Cons map_Suc_upt [symmetric] del: upt_Suc)

lemma iterations_le: "iterations env i n \<le> n"
  by (induction n arbitrary: i) auto

lemma iterations_no_abort:
  "(\<forall>j<n. \<not> aborts (env (i + j))) \<Longrightarrow> iterations env i n = n"
proof (induction n arbitrary: i)
  case 0
  then show ?case by simp
next
  case (Suc n)
  from Suc.prems have "\<not> aborts (env i)" by force
  moreover have "\<forall>j<n. \<not> aborts (env (Suc i + j))"
    using Suc.prems by (metis Suc_less_eq add_Suc_shift)
  ultimately show ?case using Suc.IH [of "Suc i"] by simp
qed

lemma iterations_first_abort:
  "k < n \<Longrightarrow> aborts (env (i + k)) \<Longrightarrow> (\<forall>j<k. \<not> aborts (env (i + j))) \<Longrightarrow>
   iterations env i n = Suc k"
proof (induction n arbitrary: i k)
  case 0
  then show ?case by simp
next
  case (Suc n)
  show ?case
  proof (cases k)
    case 0
    with Suc.prems show ?thesis by simp
  next
    case (Suc k')
    from Suc Suc.prems have na: "\<not> aborts (env i)" by force
    have "iterations env (Suc i) n = Suc k'"
    proof (rule Suc.IH)
      show "k' < n" using Suc Suc.prems by simp
      show "aborts (env (Suc i + k'))" using Suc Suc.prems by simp
      show "\<forall>j<k'. \<not> aborts (env (Suc i + j))"
        using Suc Suc.prems(3) by (metis Suc_less_eq add_Suc_shift)
    qed
    with na Suc show ?thesis by simp
  qed
qed

lemma iterations_continue:
  "j < iterations env i n \<Longrightarrow> Suc j < n \<Longrightarrow> \<not> aborts (env (i + j)) \<Longrightarrow>
   Suc j < iterations env i n"
proof (induction n arbitrary: i j)
  case 0
  then show ?case by simp
next
  case (Suc n)
  show ?case
  proof (cases j)
    case 0
    with Suc.prems obtain n' where "n = Suc n'" by (cases n) auto
    with 0 Suc.prems show ?thesis by simp
  next
    case (Suc j')
    with Suc.prems have na: "\<not> aborts (env i)" by (auto split: if_splits)
    with Suc Suc.prems have "j' < iterations env (Suc i) n" by simp
    moreover from Suc Suc.prems have "Suc j' < n" "\<not> aborts (env (Suc i + j'))" by simp_all
    ultimately have "Suc j' < iterations env (Suc i) n" by (rule Suc.IH)
    with na Suc show ?thesis by simp
  qed
qed

lemma navigate_loop_run:
  "navigate_loop ts ed env orig i ls s rs = (rs', s') \<Longrightarrow>
   rs' = rs @ map (\<lambda>j. visit ts ed (i + j) (ls ! j) (env (i + j)))
               [0..<iterations env i (length ls)] \<and>
   trace s' = trace s @ concat (map (\<lambda>j. step_events orig (ls ! j) (env (i + j)))
               [0..<iterations env i (length ls)])"
proof (induction ls arbitrary: i s rs)
  case Nil
  then show ?case by simp
next
  case (Cons l ls)
  let ?rs1 = "rs @ [visit ts ed i l (env i)]"
  let ?tr = "trace s @ [Goto (href l), Goto orig]"
  show ?case
  proof (cases "goto_origin (env i)")
    case Loaded
    then have na: "\<not> aborts (env i)" "\<not> return_failed (env i)"
      by (simp_all add: aborts_def return_failed_def)
    from Cons.prems Loaded
    have "navigate_loop ts ed env orig (Suc i) ls \<lparr>page = Some orig, trace = ?tr\<rparr> ?rs1 = (rs', s')"
      by (simp add: Let_def)
    from Cons.IH [OF this] na show ?thesis
      by (simp add: map_upt_Suc_shift step_events_def del: upt_Suc)
  next
    case (GotoFailed msg u)
    then have rf: "return_failed (env i)" by (simp add: return_failed_def)
    show ?thesis
    proof (cases "reconnect (env i)")
      case None
      with rf have ab: "aborts (env i)" by (simp add: aborts_def)
      from Cons.prems GotoFailed None ab rf show ?thesis
        by (auto simp: Let_def step_events_def)
    next
      case (Some p)
      with rf have na: "\<not> aborts (env i)" by (simp add: aborts_def)
      from Cons.prems GotoFailed Some
      have "navigate_loop ts ed env orig (Suc i) ls
              \<lparr>page = Some p, trace = ?tr @ [Reconnect]\<rparr> ?rs1 = (rs', s')"
        by (simp add: Let_def)
      from Cons.IH [OF this] na rf show ?thesis
        by (simp add: map_upt_Suc_shift step_events_def del: upt_Suc)
    qed
  qed
qed

lemma navigate_loop_clean_page:
  "(\<forall>j<length ls. clean ts ed (env (i + j))) \<Longrightarrow> page s = Some orig \<Longrightarrow>
   page (snd (navigate_loop ts ed env orig i ls s rs)) = Some orig"
proof (induction ls arbitrary: i s rs)
  case Nil
  then show ?case by simp
next
  case (Cons l ls)
  from Cons.prems(1) have c: "clean ts ed (env i)" by force
  then have lo: "goto_origin (env i) = Loaded" by (simp add: clean_def)
  have rest: "\<forall>j<length ls. clean ts ed (env (Suc i + j))"
    using Cons.prems(1) by (metis Suc_less_eq add_Suc_shift length_Cons)
  show ?case using lo Cons.IH [OF rest, of "\<lparr>page = Some orig, trace = trace s @ [Goto (href l), Goto orig]\<rparr>"]
    by (simp add: Let_def)
qed

lemma visit_index: "index (visit ts ed i l e) = i"
  by (simp add: visit_def failed_result_def split: goto_result.splits sum.splits prod.splits)

lemma visit_original_link: "original_link (visit ts ed i l e) = l"
  by (simp add: visit_def failed_result_def split: goto_result.splits sum.splits prod.splits)

lemma visit_clean: "clean ts ed e \<Longrightarrow> error (visit ts ed i l e) = None"
  by (auto simp: visit_def clean_def failed_result_def split: goto_result.splits sum.splits prod.splits)

lemma visit_shape:
  "(error (visit ts ed i l e) \<noteq> None \<and> current_url (visit ts ed i l e) = None \<and>
    page_title (visit ts ed i l e) = None \<and> screenshot_path (visit ts ed i l e) = None \<and>
    data_path (visit ts ed i l e) = None \<and> page_data (visit ts ed i l e) = None) \<or>
   (error (visit ts ed i l e) = None \<and> current_url (visit ts ed i l e) \<noteq> None \<and>
    page_title (visit ts ed i l e) \<noteq> None)"
  by (simp add: visit_def failed_result_def split: goto_result.splits sum.splits prod.splits)

lemma visit_goto_failed:
  "goto_target e = GotoFailed msg u \<Longrightarrow> visit ts ed i l e = failed_result i l msg e"
  by (simp add: visit_def)


lemma clean_not_aborts: "clean ts ed e \<Longrightarrow> \<not> aborts e"
  by (simp add: clean_def aborts_def return_failed_def)

text \<open>
  Claim C1. When the session holds a page and no call of any iteration raises, every
  link of the list gets exactly one result: as many results as links, their \<open>index\<close>
  fields counting 0, 1, 2 and so on in the order of the list, each carrying its own link and
  no error; the page the session holds afterwards is the origin URL read before the loop.
\<close>

theorem navigate_and_return_clean_run:
  assumes "page s = Some origin" and "\<forall>i<length hrefs. clean ts ed (env i)"
  shows "\<exists>rs s'. navigate_and_return ts ed env hrefs s = Inr (rs, s') \<and>
           length rs = length hrefs \<and>
           map index rs = [0..<length hrefs] \<and>
           map original_link rs = hrefs \<and>
           (\<forall>r \<in> set rs. error r = None) \<and>
           page s' = Some origin"
proof -
  obtain rs s' where run: "navigate_loop ts ed env origin 0 hrefs s [] = (rs, s')"
    by (cases "navigate_loop ts ed env origin 0 hrefs s []")
  have "\<forall>j<length hrefs. \<not> aborts (env (0 + j))"
    using assms(2) clean_not_aborts by auto
  then have it: "iterations env 0 (length hrefs) = length hrefs"
    by (rule iterations_no_abort)
  from navigate_loop_run [OF run] it
  have rs: "rs = map (\<lambda>j. visit ts ed j (hrefs ! j) (env j)) [0..<length hrefs]"
    by simp
  have len: "length rs = length hrefs" by (simp add: rs)
  have idx: "map index rs = [0..<length hrefs]"
    by (simp add: rs visit_index o_def)
  have lnk: "map original_link rs = hrefs"
    by (simp add: rs visit_original_link o_def map_nth)
  have err: "\<forall>r \<in> set rs. error r = None"
    using assms(2) by (auto simp: rs visit_clean)
  have "page (snd (navigate_loop ts ed env origin 0 hrefs s [])) = Some origin"
    using assms by (intro navigate_loop_clean_page) simp_all
  with run have pg: "page s' = Some origin" by simp
  from assms(1) run have nr: "navigate_and_return ts ed env hrefs s = Inr (rs, s')"
    by (simp add: navigate_and_return_def)
  show ?thesis
    by (rule exI [of _ rs], rule exI [of _ s']) (intro conjI nr len idx lnk err pg)
qed


theorem navigate_and_return_clean_run_witness:
  "\<exists>rs s'. navigate_and_return True True (\<lambda>i. clean_env) sample_links origin_session
             = Inr (rs, s') \<and>
           length rs = 3 \<and> map index rs = [0, 1, 2] \<and>
           map original_link rs = sample_links \<and>
           page s' = Some ''https://turo.com/trips''"
proof -
  have h1: "page origin_session = Some ''https://turo.com/trips''"
    by (simp add: origin_session_def)
  have h2: "\<forall>i<length sample_links. clean True True ((\<lambda>i. clean_env) i)"
    by (simp add: clean_def clean_env_def)
  have l3: "length sample_links = 3" by (simp add: sample_links_def)
  have u3: "[0..<3] = [0, 1, 2]" by (simp add: upt_rec)
  from navigate_and_return_clean_run [OF h1 h2]
  obtain rs s' where r:
    "navigate_and_return True True (\<lambda>i. clean_env) sample_links origin_session = Inr (rs, s')"
    "length rs = length sample_links" "map index rs = [0..<length sample_links]"
    "map original_link rs = sample_links" "page s' = Some ''https://turo.com/trips''"
    by (elim exE conjE)
  show ?thesis
    by (rule exI [of _ rs], rule exI [of _ s'])
       (intro conjI r(1) r(2) [unfolded l3] r(3) [unfolded l3 u3] r(4) r(5))
qed

lemma failing_run_eval:
  "navigate_and_return True True failing_run sample_links origin_session =
     Inr ([failed_result 0 (sample_links ! 0) ''Timeout'' (failing_run 0),
           visit True True 1 (sample_links ! 1) (failing_run 1)],
          \<lparr>page = Some ''about:blank'',
           trace = [Goto ''https://turo.com/a'', Goto ''https://turo.com/trips'',
                    Goto ''https://turo.com/b'', Goto ''https://turo.com/trips'', Reconnect]\<rparr>)"
  by (simp add: navigate_and_return_def origin_session_def sample_links_def failing_run_def
      clean_env_def Let_def visit_def failed_result_def)

text \<open>
  Claim C2. With a page connected the call never raises: it returns the results made so
  far, at most one per link. The calls on the browser are, iteration by iteration, the
  visit, the return to the origin and, exactly when that return failed, one reconnect. The
  first iteration whose return and reconnect both fail is the last one: the run stops
  there with one result per target up to it, and no later target is visited. A failed
  return followed by a successful reconnect does not stop the run: when no iteration
  aborts, every target is processed.
\<close>

theorem navigate_and_return_reconnect_policy:
  assumes "page s = Some origin"
  shows "\<exists>rs s'. navigate_and_return ts ed env hrefs s = Inr (rs, s') \<and>
           length rs \<le> length hrefs \<and>
           trace s' = trace s @ concat (map (\<lambda>i. step_events origin (hrefs ! i) (env i))
                                         [0..<length rs]) \<and>
           (\<forall>k<length hrefs. aborts (env k) \<and> (\<forall>j<k. \<not> aborts (env j)) \<longrightarrow>
                length rs = Suc k) \<and>
           ((\<forall>k<length hrefs. \<not> aborts (env k)) \<longrightarrow> length rs = length hrefs)"
proof -
  obtain rs s' where run: "navigate_loop ts ed env origin 0 hrefs s [] = (rs, s')"
    by (cases "navigate_loop ts ed env origin 0 hrefs s []")
  let ?m = "iterations env 0 (length hrefs)"
  from navigate_loop_run [OF run]
  have rs: "rs = map (\<lambda>j. visit ts ed j (hrefs ! j) (env j)) [0..<?m]"
    and tr0: "trace s' = trace s @ concat (map (\<lambda>j. step_events origin (hrefs ! j) (env j)) [0..<?m])"
    by simp_all
  have len: "length rs = ?m" by (simp add: rs)
  have le: "length rs \<le> length hrefs" unfolding len by (rule iterations_le)
  have tr: "trace s' = trace s @ concat (map (\<lambda>i. step_events origin (hrefs ! i) (env i))
                                         [0..<length rs])"
    unfolding len by (rule tr0)
  have ab: "\<forall>k<length hrefs. aborts (env k) \<and> (\<forall>j<k. \<not> aborts (env j)) \<longrightarrow>
                length rs = Suc k"
  proof (intro allI impI)
    fix k assume k: "k < length hrefs" and a: "aborts (env k) \<and> (\<forall>j<k. \<not> aborts (env j))"
    from a have "aborts (env (0 + k))" "\<forall>j<k. \<not> aborts (env (0 + j))" by simp_all
    from iterations_first_abort [OF k this] show "length rs = Suc k" by (simp add: len)
  qed
  have na: "(\<forall>k<length hrefs. \<not> aborts (env k)) \<longrightarrow> length rs = length hrefs"
  proof
    assume "\<forall>k<length hrefs. \<not> aborts (env k)"
    then have "\<forall>j<length hrefs. \<not> aborts (env (0 + j))" by simp
    from iterations_no_abort [OF this] show "length rs = length hrefs" by (simp add: len)
  qed
  from assms run have nr: "navigate_and_return ts ed env hrefs s = Inr (rs, s')"
    by (simp add: navigate_and_return_def)
  show ?thesis
    by (rule exI [of _ rs], rule exI [of _ s']) (intro conjI nr le tr ab na)
qed

theorem navigate_and_return_reconnect_policy_witness:
  "\<exists>rs s'. navigate_and_return True True failing_run sample_links origin_session
             = Inr (rs, s') \<and>
           length rs = 2 \<and>
           trace s' = [Goto ''https://turo.com/a'', Goto ''https://turo.com/trips'',
                       Goto ''https://turo.com/b'', Goto ''https://turo.com/trips'', Reconnect]"
proof -
  have h1: "page origin_session = Some ''https://turo.com/trips''"
    by (simp add: origin_session_def)
  from navigate_and_return_reconnect_policy [OF h1, of True True failing_run sample_links]
  obtain rs s' where r:
    "navigate_and_return True True failing_run sample_links origin_session = Inr (rs, s')"
    "trace s' = trace origin_session @
       concat (map (\<lambda>i. step_events ''https://turo.com/trips'' (sample_links ! i) (failing_run i))
                 [0..<length rs])"
    "\<forall>k<length sample_links. aborts (failing_run k) \<and> (\<forall>j<k. \<not> aborts (failing_run j)) \<longrightarrow>
        length rs = Suc k"
    by (elim exE conjE)
  have "1 < length sample_links" by (simp add: sample_links_def)
  moreover have "aborts (failing_run 1) \<and> (\<forall>j<1. \<not> aborts (failing_run j))"
    by (simp add: aborts_def return_failed_def failing_run_def clean_env_def)
  ultimately have len: "length rs = 2" using r(3) by fastforce
  have u2: "[0..<2] = [0, 1]" by (simp add: upt_rec)
  have tr: "trace s' = [Goto ''https://turo.com/a'', Goto ''https://turo.com/trips'',
                       Goto ''https://turo.com/b'', Goto ''https://turo.com/trips'', Reconnect]"
    unfolding r(2) len u2
    by (simp add: origin_session_def sample_links_def step_events_def return_failed_def
        failing_run_def clean_env_def)
  show ?thesis
    by (rule exI [of _ rs], rule exI [of _ s']) (intro conjI r(1) len tr)
qed

text \<open>
  Claim C7. Every result of \<open>navigate_and_return\<close> either has an error and none of the
  fields of a capture, or has no error and both the current URL and the page title. A
  visit whose navigation fails is recorded as the failure dictionary of its target, with
  the failure's text as the error. The calls on the browser show one visit per target,
  so nothing is retried, each followed by the return to the origin; and unless the
  iteration aborts the run, the next target is processed as well.
\<close>

theorem navigate_and_return_result_shape:
  assumes "navigate_and_return ts ed env hrefs s = Inr (rs, s')"
  shows "(\<forall>r \<in> set rs.
            (error r \<noteq> None \<and> current_url r = None \<and> page_title r = None \<and>
             screenshot_path r = None \<and> data_path r = None \<and> page_data r = None) \<or>
            (error r = None \<and> current_url r \<noteq> None \<and> page_title r \<noteq> None)) \<and>
         (\<forall>i<length rs. \<forall>msg u. goto_target (env i) = GotoFailed msg u \<longrightarrow>
            rs ! i = failed_result i (hrefs ! i) msg (env i) \<and> error (rs ! i) = Some msg) \<and>
         (\<exists>origin. page s = Some origin \<and>
            trace s' = trace s @
              concat (map (\<lambda>i. [Goto (href (hrefs ! i)), Goto origin] @
                                (if return_failed (env i) then [Reconnect] else []))
                        [0..<length rs])) \<and>
         (\<forall>i. i < length rs \<and> Suc i < length hrefs \<and> \<not> aborts (env i) \<longrightarrow>
            Suc i < length rs)"
proof -
  from assms obtain origin where pg: "page s = Some origin"
    and run: "navigate_loop ts ed env origin 0 hrefs s [] = (rs, s')"
    by (auto simp: navigate_and_return_def split: option.splits)
  let ?m = "iterations env 0 (length hrefs)"
  from navigate_loop_run [OF run]
  have rs: "rs = map (\<lambda>j. visit ts ed j (hrefs ! j) (env j)) [0..<?m]"
    and tr0: "trace s' = trace s @ concat (map (\<lambda>j. step_events origin (hrefs ! j) (env j)) [0..<?m])"
    by simp_all
  have len: "length rs = ?m" by (simp add: rs)
  have shape: "\<forall>r \<in> set rs.
            (error r \<noteq> None \<and> current_url r = None \<and> page_title r = None \<and>
             screenshot_path r = None \<and> data_path r = None \<and> page_data r = None) \<or>
            (error r = None \<and> current_url r \<noteq> None \<and> page_title r \<noteq> None)"
  proof
    fix r assume "r \<in> set rs"
    then obtain j where "r = visit ts ed j (hrefs ! j) (env j)" by (auto simp: rs)
    then show "(error r \<noteq> None \<and> current_url r = None \<and> page_title r = None \<and>
             screenshot_path r = None \<and> data_path r = None \<and> page_data r = None) \<or>
            (error r = None \<and> current_url r \<noteq> None \<and> page_title r \<noteq> None)"
      using visit_shape [of ts ed j "hrefs ! j" "env j"] by simp
  qed
  have failed: "\<forall>i<length rs. \<forall>msg u. goto_target (env i) = GotoFailed msg u \<longrightarrow>
            rs ! i = failed_result i (hrefs ! i) msg (env i) \<and> error (rs ! i) = Some msg"
  proof (intro allI impI)
    fix i msg u assume i: "i < length rs" and g: "goto_target (env i) = GotoFailed msg u"
    from i have "rs ! i = visit ts ed i (hrefs ! i) (env i)"
      unfolding len by (simp add: rs)
    with visit_goto_failed [OF g]
    show "rs ! i = failed_result i (hrefs ! i) msg (env i) \<and> error (rs ! i) = Some msg"
      by (simp add: failed_result_def)
  qed
  have tr: "\<exists>origin. page s = Some origin \<and>
            trace s' = trace s @
              concat (map (\<lambda>i. [Goto (href (hrefs ! i)), Goto origin] @
                                (if return_failed (env i) then [Reconnect] else []))
                        [0..<length rs])"
    using pg tr0 unfolding len step_events_def by simp
  have cont: "\<forall>i. i < length rs \<and> Suc i < length hrefs \<and> \<not> aborts (env i) \<longrightarrow>
            Suc i < length rs"
  proof (intro allI impI)
    fix i assume a: "i < length rs \<and> Suc i < length hrefs \<and> \<not> aborts (env i)"
    then have "i < ?m" "Suc i < length hrefs" "\<not> aborts (env (0 + i))"
      by (simp_all add: len)
    from iterations_continue [OF this] show "Suc i < length rs" by (simp add: len)
  qed
  show ?thesis by (intro conjI shape failed tr cont)
qed

theorem navigate_and_return_result_shape_witness:
  "error (failed_result 0 (sample_links ! 0) ''Timeout'' (failing_run 0)) = Some ''Timeout'' \<and>
   current_url (failed_result 0 (sample_links ! 0) ''Timeout'' (failing_run 0)) = None \<and>
   1 < length [failed_result 0 (sample_links ! 0) ''Timeout'' (failing_run 0),
               visit True True 1 (sample_links ! 1) (failing_run 1)]"
proof -
  let ?rs = "[failed_result 0 (sample_links ! 0) ''Timeout'' (failing_run 0),
              visit True True 1 (sample_links ! 1) (failing_run 1)]"
  note t = navigate_and_return_result_shape [OF failing_run_eval]
  from t have "\<forall>i<length ?rs. \<forall>msg u. goto_target (failing_run i) = GotoFailed msg u \<longrightarrow>
            ?rs ! i = failed_result i (sample_links ! i) msg (failing_run i) \<and>
            error (?rs ! i) = Some msg"
    by (elim conjE)
  moreover have "goto_target (failing_run 0) = GotoFailed ''Timeout'' ''about:blank''"
    by (simp add: failing_run_def clean_env_def)
  ultimately have e: "error (?rs ! 0) = Some ''Timeout''" by fastforce
  from t have "\<forall>i. i < length ?rs \<and> Suc i < length sample_links \<and> \<not> aborts (failing_run i) \<longrightarrow>
            Suc i < length ?rs"
    by (elim conjE)
  moreover have "\<not> aborts (failing_run 0)"
    by (simp add: aborts_def return_failed_def failing_run_def clean_env_def)
  moreover have "Suc 0 < length sample_links" by (simp add: sample_links_def)
  ultimately have c: "Suc 0 < length ?rs" by fastforce
  from e c show ?thesis by (simp add: failed_result_def)
qed

section \<open>Vehicle listing cards\<close>

lemma listing_script_missing_subtitles:
  "\<exists>c \<in> set cards. length (subtitles c) < 2 \<Longrightarrow> \<exists>err. listing_script cards vehicles = Inl err"
proof (induction cards arbitrary: vehicles)
  case Nil
  then show ?case by simp
next
  case (Cons c cards)
  show ?case
  proof (cases "card_details c")
    case (Inl err)
    then show ?thesis by simp
  next
    case (Inr details)
    then have "\<not> length (subtitles c) < 2"
      by (auto simp: card_details_def Let_def split: list.splits)
    with Cons.prems have "\<exists>c \<in> set cards. length (subtitles c) < 2" by auto
    from Cons.IH [OF this] Inr show ?thesis by (simp split: if_splits)
  qed
qed

text \<open>
  Claim C8. The claim says that a card without the expected inner structure is skipped
  and the other cards are still extracted. The page script reads the first two subtitle
  elements without a check: on a page with a complete card and a card that has no
  subtitle element the script throws, and the extraction returns the empty dictionary,
  although the complete card alone is extracted as expected.
\<close>

theorem card_without_subtitles_empties_listing:
  "extract_vehicle_listings (Some ''https://turo.com/vehicles'') [good_card] [] =
     Inr ([(''https://turo.com/vehicle/1'', [''Tesla Model 3 2020'', ''Long Range'', ''ABC123''])],
          [(''https://turo.com/vehicle/1'', [''Tesla Model 3 2020'', ''Long Range'', ''ABC123''])])
   \<and> extract_vehicle_listings (Some ''https://turo.com/vehicles'') [good_card, bare_card] [] =
     Inr ([], [])"
  by (simp add: extract_vehicle_listings_def good_card_def bare_card_def card_details_def
      js_trim_def is_js_space_def js_string_def)

section \<open>The missing method\<close>

lemma open_new_tab_undefined: "\<not> resolves c ''open_new_tab''"
  by (cases c) (simp_all add: resolves_def crawler_attributes_def)

text \<open>
  Claim C9, as stated, at a session that holds no page: \<open>extract_rentals_from_page\<close>
  does not return the empty list, it raises \<open>RuntimeError\<close> from its guard.
\<close>

theorem extract_rentals_not_connected_raises:
  "extract_rentals_from_page sample_browser None ''https://turo.com/vehicle/1'' =
     Inl (RuntimeError ''No page connected. Call connect_to_browser() first.'')
   \<and> extract_rentals_from_page sample_browser None ''https://turo.com/vehicle/1'' \<noteq> Inr []"
  by (simp add: extract_rentals_from_page_def not_connected_def)

text \<open>
  Claim C9, amended. No class of the repository gives \<open>self.open_new_tab\<close> a meaning.
  So, whenever the session holds a page, \<open>extract_rentals_from_page\<close> catches the
  \<open>AttributeError\<close> and returns the empty list; with no page it raises \<open>RuntimeError\<close>
  from its guard, before the call is reached. \<open>process_receipt\<close>, for every input,
  returns the failure dictionary carrying the text of the \<open>AttributeError\<close> under
  \<open>error\<close>, with no income calculation, and never raises.
\<close>

theorem open_new_tab_missing:
  "(\<forall>c. \<not> resolves c ''open_new_tab'')
   \<and> (pg \<noteq> None \<longrightarrow> extract_rentals_from_page w pg vehicle_url = Inr [])
   \<and> (pg = None \<longrightarrow> extract_rentals_from_page w pg vehicle_url = Inl not_connected)
   \<and> process_receipt w owner_folders rental_url info owner_name plate =
       receipt_failure rental_url info owner_name plate
         (AttributeError (quoted ''ReceiptProcessor'' @ '' object has no attribute '' @
                          quoted ''open_new_tab''))
   \<and> receipt_error (process_receipt w owner_folders rental_url info owner_name plate) \<noteq> None
   \<and> income_calculation (process_receipt w owner_folders rental_url info owner_name plate) = None"
proof -
  have a: "\<forall>c. \<not> resolves c ''open_new_tab''"
    by (simp add: open_new_tab_undefined)
  have b: "pg \<noteq> None \<longrightarrow> extract_rentals_from_page w pg vehicle_url = Inr []"
    by (simp add: extract_rentals_from_page_def self_call_def open_new_tab_undefined)
  have c: "pg = None \<longrightarrow> extract_rentals_from_page w pg vehicle_url = Inl not_connected"
    by (simp add: extract_rentals_from_page_def)
  have d: "process_receipt w owner_folders rental_url info owner_name plate =
       receipt_failure rental_url info owner_name plate
         (AttributeError (quoted ''ReceiptProcessor'' @ '' object has no attribute '' @
                          quoted ''open_new_tab''))"
    by (simp add: process_receipt_def receipt_steps_def self_call_def open_new_tab_undefined
        class_name_def Let_def)
  have e: "receipt_error (process_receipt w owner_folders rental_url info owner_name plate) \<noteq> None"
    unfolding d by (simp add: receipt_failure_def)
  have f: "income_calculation (process_receipt w owner_folders rental_url info owner_name plate) = None"
    unfolding d by (simp add: receipt_failure_def)
  show ?thesis by (intro conjI a b c d e f)
qed

theorem open_new_tab_missing_witness:
  "extract_rentals_from_page sample_browser (Some ''https://turo.com/trips'')
     ''https://turo.com/vehicle/1'' = Inr []
   \<and> receipt_error (process_receipt sample_browser [(''Richard'', ''output/receipts/Richard'')]
        ''https://turo.com/reservation/7'' [''Tesla Model 3 2020'', ''Long Range'', ''ABC123'']
        ''Richard'' ''ABC123'') \<noteq> None"
proof -
  note t = open_new_tab_missing [of "Some ''https://turo.com/trips''" sample_browser
      "''https://turo.com/vehicle/1''" "[(''Richard'', ''output/receipts/Richard'')]"
      "''https://turo.com/reservation/7''" "[''Tesla Model 3 2020'', ''Long Range'', ''ABC123'']"
      "''Richard''" "''ABC123''"]
  from t have "Some ''https://turo.com/trips'' \<noteq> None \<longrightarrow>
      extract_rentals_from_page sample_browser (Some ''https://turo.com/trips'')
        ''https://turo.com/vehicle/1'' = Inr []"
    by (elim conjE)
  then have a: "extract_rentals_from_page sample_browser (Some ''https://turo.com/trips'')
        ''https://turo.com/vehicle/1'' = Inr []"
    by simp
  from t have b: "receipt_error (process_receipt sample_browser
        [(''Richard'', ''output/receipts/Richard'')]
        ''https://turo.com/reservation/7'' [''Tesla Model 3 2020'', ''Long Range'', ''ABC123'']
        ''Richard'' ''ABC123'') \<noteq> None"
    by (elim conjE)
  from a b show ?thesis by (intro conjI)
qed

section \<open>Vehicles without an owner\<close>

lemma filter_vehicles_entries:
  "(u, info) \<in> set (filter_vehicles allowed vs acc) \<Longrightarrow>
   (u, info) \<in> set acc \<or> ((u, info) \<in> set vs \<and> 3 \<le> length info \<and> info ! 2 \<in> allowed)"
proof (induction vs arbitrary: acc)
  case Nil
  then show ?case by simp
next
  case (Cons v vs)
  obtain url i where v: "v = (url, i)" by (cases v)
  show ?case
  proof (cases "3 \<le> length i \<and> i ! 2 \<in> allowed")
    case True
    with Cons.prems v
    have "(u, info) \<in> set (filter_vehicles allowed vs (AList.update url i acc))" by simp
    from Cons.IH [OF this] True v show ?thesis
      by (auto dest: set_update_cases)
  next
    case False
    with Cons.prems v have "(u, info) \<in> set (filter_vehicles allowed vs acc)"
      by (auto split: if_splits)
    from Cons.IH [OF this] v show ?thesis by auto
  qed
qed

lemma matching_rentals_info:
  "r \<in> set (matching_rentals tm info rentals) \<Longrightarrow> vehicle_info r = info"
  by (induction rentals) (auto split: option.splits if_splits)

lemma process_vehicle_rentals_entries:
  "(u, recs) \<in> set (fold (\<lambda>(k, v). AList.update k v)
                       (process_vehicle_rentals w pg tm url info) acc) \<Longrightarrow>
   (u, recs) \<in> set acc \<or> (u = url \<and> (\<forall>r \<in> set recs. vehicle_info r = info))"
  by (auto simp: process_vehicle_rentals_def matching_rentals_info
      split: sum.splits dest!: set_update_cases)

lemma rentals_loop_entries:
  "(u, recs) \<in> set (rentals_loop w pg tm fl acc) \<Longrightarrow>
   (u, recs) \<in> set acc \<or> (\<exists>info. (u, info) \<in> set fl \<and> (\<forall>r \<in> set recs. vehicle_info r = info))"
proof (induction fl arbitrary: acc)
  case Nil
  then show ?case by simp
next
  case (Cons v fl)
  obtain url i where v: "v = (url, i)" by (cases v)
  from Cons.prems v
  have "(u, recs) \<in> set (rentals_loop w pg tm fl
          (fold (\<lambda>(k, v). AList.update k v) (process_vehicle_rentals w pg tm url i) acc))"
    by simp
  from Cons.IH [OF this] show ?case
  proof
    assume "(u, recs) \<in> set (fold (\<lambda>(k, v). AList.update k v)
                                (process_vehicle_rentals w pg tm url i) acc)"
    from process_vehicle_rentals_entries [OF this] v show ?thesis by auto
  next
    assume "\<exists>info. (u, info) \<in> set fl \<and> (\<forall>r \<in> set recs. vehicle_info r = info)"
    then show ?thesis by auto
  qed
qed

lemma process_receipt_fields:
  "owner (process_receipt w fo rurl info own plate) = own \<and>
   license_plate (process_receipt w fo rurl info own plate) = plate \<and>
   receipt_vehicle (process_receipt w fo rurl info own plate) = info"
  by (simp add: process_receipt_def receipt_steps_def receipt_failure_def Let_def
      split: sum.splits bool.splits option.splits)

lemma get_owner_allowed:
  "get_owner_for_license_plate owners plate = Some own \<Longrightarrow>
   plate \<in> allowed_license_plates owners"
  by (induction owners) (auto simp: allowed_license_plates_def split: if_splits)

lemma receipts_loop_entries:
  "r \<in> set (receipts_loop w fo owners rd acc) \<Longrightarrow>
   r \<in> set acc \<or>
   (get_owner_for_license_plate owners (license_plate r) = Some (owner r) \<and> owner r \<noteq> [] \<and>
    (\<exists>url rentals. (url, rentals) \<in> set rd \<and> rentals \<noteq> [] \<and>
       receipt_vehicle r = vehicle_info (hd rentals) \<and>
       3 \<le> length (receipt_vehicle r) \<and> license_plate r = receipt_vehicle r ! 2))"
proof (induction rd arbitrary: acc)
  case Nil
  then show ?case by simp
next
  case (Cons e rd)
  obtain url rentals where e: "e = (url, rentals)" by (cases e)
  let ?info = "vehicle_info (hd rentals)"
  let ?plate = "?info ! 2"
  show ?case
  proof (cases "rentals \<noteq> [] \<and> 3 \<le> length ?info \<and>
                (\<exists>own. get_owner_for_license_plate owners ?plate = Some own \<and> own \<noteq> [])")
    case True
    then obtain own first more where own: "get_owner_for_license_plate owners ?plate = Some own"
      "own \<noteq> []" and r: "rentals = first # more" and len: "3 \<le> length (vehicle_info first)"
      by (cases rentals) auto
    from Cons.prems e r own len
    have "r \<in> set (receipts_loop w fo owners rd
            (acc @ map (\<lambda>rental. process_receipt w fo (rental_href rental) (vehicle_info first)
                                   own (vehicle_info first ! 2)) rentals))"
      by (simp add: Let_def)
    from Cons.IH [OF this] show ?thesis
    proof
      assume "r \<in> set (acc @ map (\<lambda>rental. process_receipt w fo (rental_href rental)
                                   (vehicle_info first) own (vehicle_info first ! 2)) rentals)"
      then have "r \<in> set acc \<or>
          (\<exists>rental::rental_record. r = process_receipt w fo (rental_href rental) (vehicle_info first) own
                              (vehicle_info first ! 2))"
        by auto
      then show ?thesis
      proof (elim disjE exE)
        assume "r \<in> set acc"
        then show ?thesis by simp
      next
        fix rental :: rental_record
        assume 2: "r = process_receipt w fo (rental_href rental) (vehicle_info first) own
                              (vehicle_info first ! 2)"
        have f: "owner r = own" "license_plate r = vehicle_info first ! 2"
          "receipt_vehicle r = vehicle_info first"
          unfolding 2 by (simp_all add: process_receipt_fields)
        have "(url, rentals) \<in> set (e # rd) \<and> rentals \<noteq> [] \<and>
           receipt_vehicle r = vehicle_info (hd rentals) \<and>
           3 \<le> length (receipt_vehicle r) \<and> license_plate r = receipt_vehicle r ! 2"
          using f r len e by simp
        then have "\<exists>url rentals. (url, rentals) \<in> set (e # rd) \<and> rentals \<noteq> [] \<and>
           receipt_vehicle r = vehicle_info (hd rentals) \<and>
           3 \<le> length (receipt_vehicle r) \<and> license_plate r = receipt_vehicle r ! 2"
          by blast
        moreover have "get_owner_for_license_plate owners (license_plate r) = Some (owner r)"
          using f own r by simp
        moreover have "owner r \<noteq> []" using f own by simp
        ultimately show ?thesis by (intro disjI2 conjI)
      qed
    next
      assume "get_owner_for_license_plate owners (license_plate r) = Some (owner r) \<and> owner r \<noteq> [] \<and>
        (\<exists>url rentals. (url, rentals) \<in> set rd \<and> rentals \<noteq> [] \<and>
           receipt_vehicle r = vehicle_info (hd rentals) \<and>
           3 \<le> length (receipt_vehicle r) \<and> license_plate r = receipt_vehicle r ! 2)"
      then show ?thesis by auto
    qed
  next
    case False
    with Cons.prems e have "r \<in> set (receipts_loop w fo owners rd acc)"
      by (cases rentals) (auto simp: Let_def split: option.splits if_splits)
    from Cons.IH [OF this] show ?thesis by auto
  qed
qed


lemma add_receipt_entries:
  assumes "(own, vs) \<in> set (add_receipt ow p name inc sm)" and "(plate, d) \<in> set vs"
  shows "(own = ow \<and> plate = p) \<or> (\<exists>vs' d'. (own, vs') \<in> set sm \<and> (plate, d') \<in> set vs')"
proof -
  define vehicles where "vehicles = (case map_of sm ow of None \<Rightarrow> [] | Some vs \<Rightarrow> vs)"
  obtain vname total n where
    t: "(case map_of vehicles p of None \<Rightarrow> (name, 0, 0) | Some d \<Rightarrow> d) = (vname, total, n)"
    by (cases "case map_of vehicles p of None \<Rightarrow> (name, 0::rat, 0::nat) | Some d \<Rightarrow> d") auto
  define x where "x = (vname, total + inc, Suc n)"
  have upd: "add_receipt ow p name inc sm = AList.update ow (AList.update p x vehicles) sm"
    using t by (simp add: add_receipt_def vehicles_def x_def Let_def)
  from assms(1) [unfolded upd] set_update_cases
  have "(own, vs) = (ow, AList.update p x vehicles) \<or> (own, vs) \<in> set sm" by fast
  then show ?thesis
  proof
    assume *: "(own, vs) = (ow, AList.update p x vehicles)"
    with assms(2) set_update_cases have "(plate, d) = (p, x) \<or> (plate, d) \<in> set vehicles"
      by fast
    then show ?thesis
    proof
      assume "(plate, d) = (p, x)"
      with * show ?thesis by simp
    next
      assume v: "(plate, d) \<in> set vehicles"
      then have "map_of sm ow = Some vehicles"
        by (cases "map_of sm ow") (simp_all add: vehicles_def)
      then have "(ow, vehicles) \<in> set sm" by (rule map_of_SomeD)
      with v * show ?thesis by blast
    qed
  next
    assume "(own, vs) \<in> set sm"
    with assms(2) show ?thesis by blast
  qed
qed

lemma summarise_entries:
  "summarise results sm0 = Inr sm \<Longrightarrow> (own, vs) \<in> set sm \<Longrightarrow> (plate, d) \<in> set vs \<Longrightarrow>
   (\<exists>vs' d'. (own, vs') \<in> set sm0 \<and> (plate, d') \<in> set vs') \<or>
   (\<exists>r \<in> set results. receipt_error r = None \<and> owner r = own \<and> license_plate r = plate)"
proof (induction results arbitrary: sm0)
  case Nil
  then have "sm0 = sm" by simp
  with Nil.prems(2,3) show ?case by blast
next
  case (Cons r results)
  show ?case
  proof (cases "receipt_error r \<noteq> None")
    case True
    with Cons.prems have "summarise results sm0 = Inr sm" by simp
    from Cons.IH [OF this Cons.prems(2,3)] show ?thesis by fastforce
  next
    case False
    with Cons.prems(1) obtain name more inc where
      v: "receipt_vehicle r = name # more" and i: "income_calculation r = Some inc"
      and rest: "summarise results (add_receipt (owner r) (license_plate r) name
                    (final_income inc) sm0) = Inr sm"
      by (auto split: list.splits option.splits)
    from Cons.IH [OF rest Cons.prems(2,3)] show ?thesis
    proof
      assume "\<exists>vs' d'. (own, vs') \<in> set (add_receipt (owner r) (license_plate r) name
                    (final_income inc) sm0) \<and> (plate, d') \<in> set vs'"
      then obtain vs' d' where "(own, vs') \<in> set (add_receipt (owner r) (license_plate r) name
                    (final_income inc) sm0)" "(plate, d') \<in> set vs'" by blast
      from add_receipt_entries [OF this] False show ?thesis by fastforce
    next
      assume "\<exists>r \<in> set results. receipt_error r = None \<and> owner r = own \<and> license_plate r = plate"
      then show ?thesis by auto
    qed
  qed
qed

lemma process_all_vehicles_entries:
  assumes "process_all_vehicles w pg tm (Inr (vehicles, vehicle_owners)) = Inr rentals"
    and "(url, recs) \<in> set rentals"
  shows "\<exists>info. (url, info) \<in> set vehicles \<and> 3 \<le> length info \<and>
           info ! 2 \<in> allowed_license_plates vehicle_owners \<and>
           (\<forall>rec \<in> set recs. vehicle_info rec = info)"
proof -
  let ?fl = "filter_vehicles (allowed_license_plates vehicle_owners) vehicles []"
  from assms have "(url, recs) \<in> set (rentals_loop w pg tm ?fl [])"
    by (auto simp: process_all_vehicles_def split: if_splits)
  from rentals_loop_entries [OF this]
  obtain info where i: "(url, info) \<in> set ?fl" "\<forall>r \<in> set recs. vehicle_info r = info"
    by auto
  from filter_vehicles_entries [OF i(1)] i(2) show ?thesis by auto
qed

lemma process_all_receipts_entries:
  assumes "r \<in> set (process_all_receipts w fo vehicle_owners rental_data)"
  shows "get_owner_for_license_plate vehicle_owners (license_plate r) = Some (owner r) \<and>
         owner r \<noteq> [] \<and> license_plate r \<in> allowed_license_plates vehicle_owners"
proof -
  from assms have "r \<in> set (receipts_loop w fo vehicle_owners rental_data [])"
    by (auto simp: process_all_receipts_def split: if_splits)
  from receipts_loop_entries [OF this]
  have g: "get_owner_for_license_plate vehicle_owners (license_plate r) = Some (owner r)"
    and n: "owner r \<noteq> []" by auto
  from g n get_owner_allowed [OF g] show ?thesis by simp
qed

lemma sample_receipts_eval:
  "map license_plate (process_all_receipts sample_browser
      [(''Richard'', ''output/receipts/Richard'')] sample_owners sample_rental_data) = [''ABC123'']"
  by (simp add: process_all_receipts_def sample_owners_def sample_rental_data_def Let_def
      process_receipt_fields)

lemma sample_vehicles_eval:
  "process_all_vehicles sample_browser (Some ''https://turo.com/trips'') (Some ''Aug'')
     (Inr (sample_vehicles, sample_owners)) = Inr [(''https://turo.com/vehicle/1'', [])]"
  by (simp add: process_all_vehicles_def sample_vehicles_def sample_owners_def
      allowed_license_plates_def process_vehicle_rentals_def extract_rentals_from_page_def
      self_call_def open_new_tab_undefined)

text \<open>
  Claim C6. Take a license plate that no owner of the index holds. Every entry of the
  rentals \<open>process_all_vehicles\<close> returns belongs to a listed vehicle whose plate is in
  the index, so never to a vehicle with that plate, and every rental record of the entry
  carries that vehicle. No receipt \<open>process_all_receipts\<close> returns carries the plate, and
  the owner of each receipt is the owner the index gives for its plate, never a default.
  The income summary built from those receipts has no line for the plate, and each of
  its lines stands under the owner the index gives.
\<close>

theorem unowned_vehicle_dropped:
  assumes "plate \<notin> allowed_license_plates vehicle_owners"
  shows "(\<forall>rentals. process_all_vehicles w pg tm (Inr (vehicles, vehicle_owners)) = Inr rentals \<longrightarrow>
            (\<forall>(url, recs) \<in> set rentals.
               \<exists>info. (url, info) \<in> set vehicles \<and> 3 \<le> length info \<and>
                 info ! 2 \<in> allowed_license_plates vehicle_owners \<and> info ! 2 \<noteq> plate \<and>
                 (\<forall>rec \<in> set recs. vehicle_info rec = info)))
       \<and> (\<forall>r \<in> set (process_all_receipts w fo vehicle_owners rental_data).
            license_plate r \<noteq> plate \<and>
            get_owner_for_license_plate vehicle_owners (license_plate r) = Some (owner r))
       \<and> (\<forall>sm. summarise (process_all_receipts w fo vehicle_owners rental_data) [] = Inr sm \<longrightarrow>
            (\<forall>(own, vs) \<in> set sm. \<forall>(p, d) \<in> set vs.
               p \<noteq> plate \<and> get_owner_for_license_plate vehicle_owners p = Some own))"
proof -
  have a: "\<forall>rentals. process_all_vehicles w pg tm (Inr (vehicles, vehicle_owners)) = Inr rentals \<longrightarrow>
            (\<forall>(url, recs) \<in> set rentals.
               \<exists>info. (url, info) \<in> set vehicles \<and> 3 \<le> length info \<and>
                 info ! 2 \<in> allowed_license_plates vehicle_owners \<and> info ! 2 \<noteq> plate \<and>
                 (\<forall>rec \<in> set recs. vehicle_info rec = info))"
  proof (intro allI impI ballI)
    fix rentals e
    assume run: "process_all_vehicles w pg tm (Inr (vehicles, vehicle_owners)) = Inr rentals"
      and e: "e \<in> set rentals"
    obtain url recs where ur: "e = (url, recs)" by (cases e)
    from process_all_vehicles_entries [OF run e [unfolded ur]] assms
    have "\<exists>info. (url, info) \<in> set vehicles \<and> 3 \<le> length info \<and>
                 info ! 2 \<in> allowed_license_plates vehicle_owners \<and> info ! 2 \<noteq> plate \<and>
                 (\<forall>rec \<in> set recs. vehicle_info rec = info)"
      by blast
    then show "case e of (url, recs) \<Rightarrow>
               \<exists>info. (url, info) \<in> set vehicles \<and> 3 \<le> length info \<and>
                 info ! 2 \<in> allowed_license_plates vehicle_owners \<and> info ! 2 \<noteq> plate \<and>
                 (\<forall>rec \<in> set recs. vehicle_info rec = info)"
      by (simp add: ur)
  qed
  have b: "\<forall>r \<in> set (process_all_receipts w fo vehicle_owners rental_data).
            license_plate r \<noteq> plate \<and>
            get_owner_for_license_plate vehicle_owners (license_plate r) = Some (owner r)"
  proof
    fix r assume "r \<in> set (process_all_receipts w fo vehicle_owners rental_data)"
    from process_all_receipts_entries [OF this] assms
    show "license_plate r \<noteq> plate \<and>
            get_owner_for_license_plate vehicle_owners (license_plate r) = Some (owner r)"
      by auto
  qed
  have c: "\<forall>sm. summarise (process_all_receipts w fo vehicle_owners rental_data) [] = Inr sm \<longrightarrow>
            (\<forall>(own, vs) \<in> set sm. \<forall>(p, d) \<in> set vs.
               p \<noteq> plate \<and> get_owner_for_license_plate vehicle_owners p = Some own)"
  proof (intro allI impI ballI)
    fix sm e1 e2
    assume sm: "summarise (process_all_receipts w fo vehicle_owners rental_data) [] = Inr sm"
      and e1: "e1 \<in> set sm"
    obtain own vs where ov: "e1 = (own, vs)" by (cases e1)
    have "\<forall>(p, d) \<in> set vs. p \<noteq> plate \<and> get_owner_for_license_plate vehicle_owners p = Some own"
    proof
      fix e2 assume e2: "e2 \<in> set vs"
      obtain p d where pd: "e2 = (p, d)" by (cases e2)
      from summarise_entries [OF sm e1 [unfolded ov] e2 [unfolded pd]]
      obtain r where "r \<in> set (process_all_receipts w fo vehicle_owners rental_data)"
        "owner r = own" "license_plate r = p" by auto
      with b show "case e2 of (p, d) \<Rightarrow>
          p \<noteq> plate \<and> get_owner_for_license_plate vehicle_owners p = Some own"
        by (auto simp: pd)
    qed
    then show "case e1 of (own, vs) \<Rightarrow> \<forall>(p, d) \<in> set vs.
               p \<noteq> plate \<and> get_owner_for_license_plate vehicle_owners p = Some own"
      by (simp add: ov)
  qed
  show ?thesis by (intro conjI a b c)
qed

theorem unowned_vehicle_dropped_witness:
  "''ZZZ999'' \<notin> allowed_license_plates sample_owners
   \<and> process_all_vehicles sample_browser (Some ''https://turo.com/trips'') (Some ''Aug'')
       (Inr (sample_vehicles, sample_owners)) = Inr [(''https://turo.com/vehicle/1'', [])]
   \<and> map license_plate (process_all_receipts sample_browser
        [(''Richard'', ''output/receipts/Richard'')] sample_owners sample_rental_data) = [''ABC123'']
   \<and> \<not> (\<exists>r \<in> set (process_all_receipts sample_browser
        [(''Richard'', ''output/receipts/Richard'')] sample_owners sample_rental_data).
          license_plate r = ''ZZZ999'')"
proof -
  have h: "''ZZZ999'' \<notin> allowed_license_plates sample_owners"
    by (simp add: allowed_license_plates_def sample_owners_def)
  from unowned_vehicle_dropped [OF h, of sample_browser "Some ''https://turo.com/trips''"
      "Some ''Aug''" sample_vehicles
      "[(''Richard'', ''output/receipts/Richard'')]" sample_rental_data,
      THEN conjunct2, THEN conjunct1]
  have "\<forall>r \<in> set (process_all_receipts sample_browser
        [(''Richard'', ''output/receipts/Richard'')] sample_owners sample_rental_data).
          license_plate r \<noteq> ''ZZZ999'' \<and>
          get_owner_for_license_plate sample_owners (license_plate r) = Some (owner r)" .
  then have n: "\<not> (\<exists>r \<in> set (process_all_receipts sample_browser
        [(''Richard'', ''output/receipts/Richard'')] sample_owners sample_rental_data).
          license_plate r = ''ZZZ999'')"
    by blast
  show ?thesis by (intro conjI h sample_vehicles_eval sample_receipts_eval n)
qed

section \<open>Date ranges\<close>

lemma match_here_group_min:
  "match_here ng p s = Some gs \<Longrightarrow> g < ng \<Longrightarrow> group_min g p \<le> length (gs ! g)"
proof (induction p arbitrary: s gs)
  case Nil
  then show ?case by simp
next
  case (Cons a p)
  obtain c lo hi g' where a: "a = Rep c lo hi g'" by (cases a)
  let ?avail = "length (takeWhile (in_class c) s)"
  from Cons.prems(1) [unfolded a] obtain k gs' where
    k: "lo \<le> k" "k \<le> (case hi of None \<Rightarrow> ?avail | Some h \<Rightarrow> min h ?avail)"
    and m: "match_here ng p (drop k s) = Some gs'" and gs: "gs = capture g' (take k s) gs'"
    by (auto simp: Let_def dest!: try_down_Some)
  from k(2) have "k \<le> ?avail" by (cases hi) simp_all
  then have kl: "k \<le> length s" using length_takeWhile_le [of "in_class c" s] by simp
  from Cons.IH [OF m Cons.prems(2)] have ih: "group_min g p \<le> length (gs' ! g)" .
  from match_here_length [OF m] Cons.prems(2) have g: "g < length gs'" by simp
  show ?case
  proof (cases "g' = Some g")
    case True
    with gs g have "gs ! g = take k s @ gs' ! g" by simp
    with ih k(1) kl True show ?thesis by (simp add: a)
  next
    case False
    with gs have "gs ! g = gs' ! g" by (cases g') auto
    with ih False show ?thesis by (simp add: a)
  qed
qed

lemma parse_date_range_end_month:
  assumes "parse_date_range t = Some d"
  shows "end_month d \<noteq> []"
proof -
  from assms obtain gs where m: "match_here 4 date_pattern (strip t) = Some gs"
    and em: "end_month d = gs ! 2"
    by (auto simp: parse_date_range_def re_match_def split: option.splits list.splits)
  from match_here_group_min [OF m, of 2] have "group_min 2 date_pattern \<le> length (gs ! 2)"
    by simp
  then have "3 \<le> length (gs ! 2)" by (simp add: date_pattern_def)
  with em show ?thesis by auto
qed

lemma match_greedy:
  assumes all: "list_all (in_class c) x" and lo: "lo \<le> length x"
    and hi: "case hi of None \<Rightarrow> True | Some h \<Rightarrow> length x \<le> h"
    and stop: "hi = Some (length x) \<or> (case t of [] \<Rightarrow> True | a # _ \<Rightarrow> \<not> in_class c a)"
    and rest: "match_here ng ps t = Some gs"
  shows "match_here ng (Rep c lo hi g # ps) (x @ t) = Some (capture g x gs)"
proof -
  let ?avail = "length (takeWhile (in_class c) (x @ t))"
  let ?n = "case hi of None \<Rightarrow> ?avail | Some h \<Rightarrow> min h ?avail"
  let ?f = "\<lambda>k. map_option (capture g (take k (x @ t))) (match_here ng ps (drop k (x @ t)))"
  have av: "?avail = length x + length (takeWhile (in_class c) t)"
    using all by (simp add: takeWhile_append2 list_all_iff)
  have n: "?n = length x"
  proof (cases "hi = Some (length x)")
    case True
    then show ?thesis by (simp add: av)
  next
    case False
    with stop have "takeWhile (in_class c) t = []" by (cases t) auto
    with av hi show ?thesis by (cases hi) simp_all
  qed
  have "?f (length x) = Some (capture g x gs)" using rest by simp
  with lo have "try_down lo (length x) ?f = Some (capture g x gs)"
    by (intro try_down_first)
  then show ?thesis by (simp add: Let_def n)
qed


lemma digit_not_space: "is_digit c \<Longrightarrow> \<not> is_space c"
  by (auto simp: is_digit_def is_space_def)

lemma word_not_space: "is_word c \<Longrightarrow> \<not> is_space c"
  by (auto simp: is_word_def is_space_def lower_letters_def upper_letters_def
      latin1_upper_def latin1_lower_def latin1_other_word_def)

lemma rstrip_prefix: "\<exists>ws. rest = rev (dropWhile P (rev rest)) @ ws"
proof -
  have "rev rest = takeWhile P (rev rest) @ dropWhile P (rev rest)" by simp
  then have "rev (rev rest) = rev (takeWhile P (rev rest) @ dropWhile P (rev rest))"
    by (rule arg_cong)
  then have "rest = rev (dropWhile P (rev rest)) @ rev (takeWhile P (rev rest))"
    by (simp only: rev_rev_ident rev_append)
  then show ?thesis by blast
qed

lemma rstrip_head:
  assumes "case rest of [] \<Rightarrow> True | a # _ \<Rightarrow> Q a"
  shows "case rev (dropWhile P (rev rest)) of [] \<Rightarrow> True | a # _ \<Rightarrow> Q a"
proof -
  obtain ws where ws: "rest = rev (dropWhile P (rev rest)) @ ws"
    using rstrip_prefix by blast
  show ?thesis
  proof (cases "rev (dropWhile P (rev rest))")
    case Nil
    show ?thesis unfolding Nil by simp
  next
    case (Cons a as)
    from ws have "rest = a # (as @ ws)" unfolding Cons by simp
    with assms have "Q a" by simp
    then show ?thesis unfolding Cons by simp
  qed
qed

lemma strip_around:
  assumes lead: "list_all is_space lead" and body: "body \<noteq> []"
    and first: "\<not> is_space (hd body)" and final: "\<not> is_space (last body)"
  shows "strip (lead @ body @ rest) = body @ rev (dropWhile is_space (rev rest))"
proof -
  from body first have b: "dropWhile is_space (body @ rest) = body @ rest"
    by (cases body) simp_all
  from lead have "dropWhile is_space (lead @ body @ rest) = dropWhile is_space (body @ rest)"
    by (simp add: dropWhile_append2 list_all_iff)
  with b have l: "dropWhile is_space (lead @ body @ rest) = body @ rest" by simp
  from body final have rb: "dropWhile is_space (rev body) = rev body"
    by (cases body rule: rev_cases) simp_all
  have "dropWhile is_space (rev rest @ rev body) = dropWhile is_space (rev rest) @ rev body"
    using rb by (simp add: dropWhile_append)
  then show ?thesis by (simp add: strip_def l)
qed

lemma date_pattern_greedy:
  assumes m1: "length m1 = 3" "list_all is_word m1"
    and d1: "d1 \<noteq> []" "length d1 \<le> 2" "list_all is_digit d1"
    and m2: "length m2 = 3" "list_all is_word m2"
    and d2: "d2 \<noteq> []" "length d2 \<le> 2" "list_all is_digit d2"
    and stop: "length d2 = 2 \<or> (case t of [] \<Rightarrow> True | a # _ \<Rightarrow> \<not> is_digit a)"
  shows "match_here 4 date_pattern (m1 @ '' '' @ d1 @ '' '' @ ''-'' @ '' '' @ m2 @ '' '' @ d2 @ t)
         = Some [m1, d1, m2, d2]"
proof -
  obtain a1 r1 where hd1: "d1 = a1 # r1" "is_digit a1" using d1 by (cases d1) auto
  obtain a2 r2 where hd2: "d2 = a2 # r2" "is_digit a2" using d2 by (cases d2) auto
  obtain b2 q2 where hm2: "m2 = b2 # q2" "is_word b2" using m2 by (cases m2) auto
  have cd: "list_all (in_class Digit) d1" "list_all (in_class Digit) d2"
    using d1 d2 by (simp_all add: list_all_iff)
  have cw: "list_all (in_class WordChar) m1" "list_all (in_class WordChar) m2"
    using m1 m2 by (simp_all add: list_all_iff)
  have sp: "list_all (in_class Space) '' ''" by (simp add: is_space_def)
  have nz: "Suc 0 \<le> length d1" "Suc 0 \<le> length d2" using hd1 hd2 by simp_all
  let ?g0 = "replicate 4 ([]::string)"
  let ?g9 = "capture (Some 3) d2 ?g0"
  let ?g8 = "capture None '' '' ?g9"
  let ?g7 = "capture (Some 2) m2 ?g8"
  let ?g6 = "capture None '' '' ?g7"
  let ?g5 = "capture None ''-'' ?g6"
  let ?g4 = "capture None '' '' ?g5"
  let ?g3 = "capture (Some 1) d1 ?g4"
  let ?g2 = "capture None '' '' ?g3"
  let ?g1 = "capture (Some 0) m1 ?g2"
  let ?p9 = "[Rep Digit 1 (Some 2) (Some 3)]"
  let ?p8 = "Rep Space 1 None None # ?p9"
  let ?p7 = "Rep WordChar 3 (Some 3) (Some 2) # ?p8"
  let ?p6 = "Rep Space 0 None None # ?p7"
  let ?p5 = "Rep (Lit CHR ''-'') 1 (Some 1) None # ?p6"
  let ?p4 = "Rep Space 0 None None # ?p5"
  let ?p3 = "Rep Digit 1 (Some 2) (Some 1) # ?p4"
  let ?p2 = "Rep Space 1 None None # ?p3"
  let ?p1 = "Rep WordChar 3 (Some 3) (Some 0) # ?p2"
  let ?t9 = "d2 @ t"
  let ?t8 = "'' '' @ ?t9"
  let ?t7 = "m2 @ ?t8"
  let ?t6 = "'' '' @ ?t7"
  let ?t5 = "''-'' @ ?t6"
  let ?t4 = "'' '' @ ?t5"
  let ?t3 = "d1 @ ?t4"
  let ?t2 = "'' '' @ ?t3"
  let ?t1 = "m1 @ ?t2"
  have s0: "match_here 4 [] t = Some ?g0" by simp
  have s9: "match_here 4 ?p9 ?t9 = Some ?g9"
    by (rule match_greedy [OF cd(2) _ _ _ s0]) (use d2 nz stop in \<open>auto split: list.splits\<close>)
  have s8: "match_here 4 ?p8 ?t8 = Some ?g8"
    by (rule match_greedy [OF sp _ _ _ s9]) (use hd2 digit_not_space in auto)
  have s7: "match_here 4 ?p7 ?t7 = Some ?g7"
    by (rule match_greedy [OF cw(2) _ _ _ s8]) (use m2 in auto)
  have s6: "match_here 4 ?p6 ?t6 = Some ?g6"
    by (rule match_greedy [OF sp _ _ _ s7]) (use hm2 word_not_space in auto)
  have s5: "match_here 4 ?p5 ?t5 = Some ?g5"
    by (rule match_greedy [OF _ _ _ _ s6]) auto
  have s4: "match_here 4 ?p4 ?t4 = Some ?g4"
    by (rule match_greedy [OF sp _ _ _ s5]) (auto simp: is_space_def)
  have s3: "match_here 4 ?p3 ?t3 = Some ?g3"
    by (rule match_greedy [OF cd(1) _ _ _ s4]) (use d1 nz in \<open>auto simp: is_digit_def\<close>)
  have s2: "match_here 4 ?p2 ?t2 = Some ?g2"
    by (rule match_greedy [OF sp _ _ _ s3]) (use hd1 digit_not_space in auto)
  have s1: "match_here 4 ?p1 ?t1 = Some ?g1"
    by (rule match_greedy [OF cw(1) _ _ _ s2]) (use m1 in auto)
  have g: "?g1 = [m1, d1, m2, d2]" by (simp add: numeral_eq_Suc)
  from s1 show ?thesis unfolding g date_pattern_def .
qed

text \<open>
  Claim C10. The date pattern is matched at the start of the stripped text only. Take any
  two month tokens of three word characters each, whether month abbreviations or not, and
  two days of one or two digits, written in the form of the specification after any
  leading white space: whatever follows, the text parses to the record of those tokens,
  as long as a day of a single digit is not followed by a further digit (which would
  belong to the day). \<open>Jul 3 - Jul 13\<close> with trailing text parses as it does without,
  and \<open>abc 1 - xyz 2\<close> parses with end month \<open>xyz\<close>, which is none of the twelve
  abbreviations.
\<close>

theorem parse_date_range_lenient:
  "(length m1 = 3 \<and> list_all is_word m1 \<and> length m2 = 3 \<and> list_all is_word m2 \<and>
    d1 \<noteq> [] \<and> length d1 \<le> 2 \<and> list_all is_digit d1 \<and>
    d2 \<noteq> [] \<and> length d2 \<le> 2 \<and> list_all is_digit d2 \<and>
    list_all is_space lead \<and>
    (length d2 = 2 \<or> (case trailing of [] \<Rightarrow> True | a # _ \<Rightarrow> \<not> is_digit a)) \<longrightarrow>
    parse_date_range (lead @ m1 @ '' '' @ d1 @ '' - '' @ m2 @ '' '' @ d2 @ trailing) =
      Some \<lparr>start_date = m1 @ '' '' @ d1, end_date = m2 @ '' '' @ d2, end_month = m2\<rparr>)
   \<and> parse_date_range ''Jul 3 - Jul 13 plus trailing text'' =
        Some \<lparr>start_date = ''Jul 3'', end_date = ''Jul 13'', end_month = ''Jul''\<rparr>
   \<and> parse_date_range ''Jul 3 - Jul 13'' =
        Some \<lparr>start_date = ''Jul 3'', end_date = ''Jul 13'', end_month = ''Jul''\<rparr>
   \<and> parse_date_range ''abc 1 - xyz 2'' =
        Some \<lparr>start_date = ''abc 1'', end_date = ''xyz 2'', end_month = ''xyz''\<rparr>
   \<and> ''xyz'' \<notin> set valid_months"
proof -
  have general: "parse_date_range (lead @ m1 @ '' '' @ d1 @ '' - '' @ m2 @ '' '' @ d2 @ trailing) =
      Some \<lparr>start_date = m1 @ '' '' @ d1, end_date = m2 @ '' '' @ d2, end_month = m2\<rparr>"
    if h: "length m1 = 3 \<and> list_all is_word m1 \<and> length m2 = 3 \<and> list_all is_word m2 \<and>
    d1 \<noteq> [] \<and> length d1 \<le> 2 \<and> list_all is_digit d1 \<and>
    d2 \<noteq> [] \<and> length d2 \<le> 2 \<and> list_all is_digit d2 \<and>
    list_all is_space lead \<and>
    (length d2 = 2 \<or> (case trailing of [] \<Rightarrow> True | a # _ \<Rightarrow> \<not> is_digit a))"
    for m1 m2 d1 d2 lead trailing
  proof -
    let ?body = "m1 @ '' '' @ d1 @ '' '' @ ''-'' @ '' '' @ m2 @ '' '' @ d2"
    let ?t = "rev (dropWhile is_space (rev trailing))"
    from h obtain a q where m1: "m1 = a # q" "is_word a" by (cases m1) auto
    from h obtain z y where d2: "d2 = y @ [z]" "is_digit z" by (cases d2 rule: rev_cases) auto
    have first: "\<not> is_space (hd ?body)" using m1 word_not_space by simp
    have final: "\<not> is_space (last ?body)" using d2 digit_not_space by simp
    have "?body \<noteq> []" using m1 by simp
    from strip_around [OF _ this first final, of lead trailing] h
    have st: "strip (lead @ m1 @ '' '' @ d1 @ '' - '' @ m2 @ '' '' @ d2 @ trailing) = ?body @ ?t"
      by simp
    have stop: "length d2 = 2 \<or> (case ?t of [] \<Rightarrow> True | a # _ \<Rightarrow> \<not> is_digit a)"
    proof (cases "length d2 = 2")
      case True
      then show ?thesis by simp
    next
      case False
      with h have "case trailing of [] \<Rightarrow> True | a # _ \<Rightarrow> \<not> is_digit a" by simp
      then show ?thesis by (intro disjI2 rstrip_head)
    qed
    have "match_here 4 date_pattern
            (m1 @ '' '' @ d1 @ '' '' @ ''-'' @ '' '' @ m2 @ '' '' @ d2 @ ?t) = Some [m1, d1, m2, d2]"
      using h stop by (intro date_pattern_greedy) simp_all
    then have "re_match 4 date_pattern (?body @ ?t) = Some [m1, d1, m2, d2]"
      by (simp add: re_match_def)
    then show ?thesis unfolding parse_date_range_def st by simp
  qed
  have e1: "parse_date_range ''Jul 3 - Jul 13 plus trailing text'' =
        Some \<lparr>start_date = ''Jul 3'', end_date = ''Jul 13'', end_month = ''Jul''\<rparr>"
    by code_simp
  have e2: "parse_date_range ''Jul 3 - Jul 13'' =
        Some \<lparr>start_date = ''Jul 3'', end_date = ''Jul 13'', end_month = ''Jul''\<rparr>"
    by code_simp
  have e3: "parse_date_range ''abc 1 - xyz 2'' =
        Some \<lparr>start_date = ''abc 1'', end_date = ''xyz 2'', end_month = ''xyz''\<rparr>"
    by code_simp
  have e4: "''xyz'' \<notin> set valid_months" by (simp add: valid_months_def)
  show ?thesis using general e1 e2 e3 e4 by (intro conjI impI)
qed

theorem parse_date_range_lenient_witness:
  "parse_date_range (''  '' @ ''q_7'' @ '' '' @ ''9'' @ '' - '' @ ''Z99'' @ '' '' @ ''31'' @ ''st of the month'') =
      Some \<lparr>start_date = ''q_7'' @ '' '' @ ''9'', end_date = ''Z99'' @ '' '' @ ''31'',
            end_month = ''Z99''\<rparr>"
proof -
  note t = parse_date_range_lenient [of "''q_7''" "''Z99''" "''9''" "''31''" "''  ''"
      "''st of the month''", THEN conjunct1]
  have "length ''q_7'' = 3 \<and> list_all is_word ''q_7'' \<and> length ''Z99'' = 3 \<and>
    list_all is_word ''Z99'' \<and> ''9'' \<noteq> [] \<and> length ''9'' \<le> 2 \<and> list_all is_digit ''9'' \<and>
    ''31'' \<noteq> [] \<and> length ''31'' \<le> 2 \<and> list_all is_digit ''31'' \<and>
    list_all is_space ''  '' \<and>
    (length ''31'' = 2 \<or> (case ''st of the month'' of [] \<Rightarrow> True | a # _ \<Rightarrow> \<not> is_digit a))"
    by (simp add: is_word_def is_digit_def is_space_def lower_letters_def upper_letters_def)
  with t show ?thesis by (rule mp)
qed

lemma parse_date_range_shape:
  "parse_date_range t \<noteq> None \<longleftrightarrow> has_shape date_pattern (strip t)"
proof
  assume "parse_date_range t \<noteq> None"
  then have "\<exists>gs. match_here 4 date_pattern (strip t) = Some gs"
    by (auto simp: parse_date_range_def re_match_def split: option.splits)
  then show "has_shape date_pattern (strip t)" by (simp add: match_here_shape)
next
  assume "has_shape date_pattern (strip t)"
  then obtain gs where gs: "match_here 4 date_pattern (strip t) = Some gs"
    using match_here_shape [of 4 date_pattern "strip t"] by blast
  from match_here_length [OF gs] obtain a b c d where "gs = [a, b, c, d]"
    by (auto simp: length_Suc_conv numeral_eq_Suc)
  with gs show "parse_date_range t \<noteq> None"
    by (simp add: parse_date_range_def re_match_def)
qed

lemma in_target_month_iff:
  "parse_date_range t = Some d \<Longrightarrow> is_rental_in_target_month (Some tm) d \<longleftrightarrow> end_month d = tm"
  by (auto simp: is_rental_in_target_month_def dest: parse_date_range_end_month)

lemma matching_rentals_set:
  "rec \<in> set (matching_rentals (Some tm) info rentals) \<longleftrightarrow>
     (\<exists>r \<in> set rentals. \<exists>d. parse_date_range (date_text r) = Some d \<and> end_month d = tm \<and>
        rec = \<lparr>vehicle_info = info, rental_href = rental_link r, parsed_dates = d\<rparr>)"
proof (induction rentals)
  case Nil
  then show ?case by simp
next
  case (Cons r rentals)
  show ?case
  proof (cases "parse_date_range (date_text r)")
    case None
    with Cons show ?thesis by simp
  next
    case (Some d)
    with Cons in_target_month_iff [OF Some, of tm] show ?thesis by auto
  qed
qed

text \<open>
  The filter loop of \<open>process_vehicle_rentals\<close>, on any list of rentals handed to it: a
  record is produced exactly for the rentals whose date text parses and whose parsed end
  month is the target month, and it carries the parsed dates. A text parses exactly when,
  stripped, it starts with the shape of the date pattern; a text that does not parse
  yields no record and no error. \<open>Jul 3 - Jul 13\<close> parses to start \<open>Jul 3\<close>, end
  \<open>Jul 13\<close>, end month \<open>Jul\<close> and is filtered out for the target month \<open>Aug\<close>, while
  \<open>Jul 28 - Aug 2\<close> is retained.
\<close>

lemma matching_rentals_filter:
  "(rec \<in> set (matching_rentals (Some tm) info rentals) \<longleftrightarrow>
      (\<exists>r \<in> set rentals. \<exists>d. parse_date_range (date_text r) = Some d \<and> end_month d = tm \<and>
         rec = \<lparr>vehicle_info = info, rental_href = rental_link r, parsed_dates = d\<rparr>))
   \<and> (parse_date_range t \<noteq> None \<longleftrightarrow> has_shape date_pattern (strip t))
   \<and> (parse_date_range t = None \<longrightarrow>
        matching_rentals (Some tm) info
          [\<lparr>rental_link = l, date_text = t, trip_name = tn, vehicle_name = vn\<rparr>] = [])
   \<and> parse_date_range ''Jul 3 - Jul 13'' =
        Some \<lparr>start_date = ''Jul 3'', end_date = ''Jul 13'', end_month = ''Jul''\<rparr>
   \<and> matching_rentals (Some ''Aug'') info
        [\<lparr>rental_link = l, date_text = ''Jul 3 - Jul 13'', trip_name = tn, vehicle_name = vn\<rparr>]
        = []
   \<and> matching_rentals (Some ''Aug'') info
        [\<lparr>rental_link = l, date_text = ''Jul 28 - Aug 2'', trip_name = tn, vehicle_name = vn\<rparr>]
        = [\<lparr>vehicle_info = info, rental_href = l,
            parsed_dates = \<lparr>start_date = ''Jul 28'', end_date = ''Aug 2'', end_month = ''Aug''\<rparr>\<rparr>]"
proof -
  have e1: "parse_date_range ''Jul 3 - Jul 13'' =
        Some \<lparr>start_date = ''Jul 3'', end_date = ''Jul 13'', end_month = ''Jul''\<rparr>"
    by code_simp
  have e2: "parse_date_range ''Jul 28 - Aug 2'' =
        Some \<lparr>start_date = ''Jul 28'', end_date = ''Aug 2'', end_month = ''Aug''\<rparr>"
    by code_simp
  have none: "parse_date_range t = None \<longrightarrow>
        matching_rentals (Some tm) info
          [\<lparr>rental_link = l, date_text = t, trip_name = tn, vehicle_name = vn\<rparr>] = []"
    by simp
  have out: "matching_rentals (Some ''Aug'') info
        [\<lparr>rental_link = l, date_text = ''Jul 3 - Jul 13'', trip_name = tn, vehicle_name = vn\<rparr>]
        = []"
    by (simp add: e1 is_rental_in_target_month_def)
  have kept: "matching_rentals (Some ''Aug'') info
        [\<lparr>rental_link = l, date_text = ''Jul 28 - Aug 2'', trip_name = tn, vehicle_name = vn\<rparr>]
        = [\<lparr>vehicle_info = info, rental_href = l,
            parsed_dates = \<lparr>start_date = ''Jul 28'', end_date = ''Aug 2'', end_month = ''Aug''\<rparr>\<rparr>]"
    by (simp add: e2 is_rental_in_target_month_def)
  show ?thesis
    by (intro conjI matching_rentals_set parse_date_range_shape none e1 out kept)
qed

text \<open>
  The loop never receives a rental: the extraction that feeds it calls a method no class
  defines and returns the empty list, or raises when no page is connected.
\<close>

lemma extract_rentals_from_page_empty:
  "extract_rentals_from_page w pg vehicle_url = Inl not_connected \<or>
   extract_rentals_from_page w pg vehicle_url = Inr []"
  by (simp add: extract_rentals_from_page_def self_call_def open_new_tab_undefined)

lemma process_vehicle_rentals_no_record:
  "process_vehicle_rentals w pg target_month vehicle_url info = [] \<or>
   process_vehicle_rentals w pg target_month vehicle_url info = [(vehicle_url, [])]"
  using extract_rentals_from_page_empty [of w pg vehicle_url]
  by (auto simp: process_vehicle_rentals_def)

text \<open>
  Claim C5. The claim says that a rental record is produced if and only if the date text
  parses and its end month is the target month, so that \<open>Jul 28 - Aug 2\<close> is retained
  for the target month \<open>Aug\<close>. On a connected session, for a vehicle whose rentals page
  shows exactly that rental, the date text parses with end month \<open>Aug\<close> and the filter
  loop, handed the rental, retains it; yet \<open>process_vehicle_rentals\<close> returns the vehicle
  with no record, and for every input it returns either nothing or the vehicle with no
  record.
\<close>

theorem process_vehicle_rentals_retains_nothing:
  "rentals_page sample_browser (''https://turo.com/vehicle/1'' @ ''/rentals'') =
     Inr [\<lparr>rental_link = ''https://turo.com/reservation/7'', date_text = ''Jul 28 - Aug 2'',
           trip_name = [], vehicle_name = []\<rparr>]
   \<and> parse_date_range ''Jul 28 - Aug 2'' =
       Some \<lparr>start_date = ''Jul 28'', end_date = ''Aug 2'', end_month = ''Aug''\<rparr>
   \<and> matching_rentals (Some ''Aug'') [''Tesla Model 3 2020'', ''Long Range'', ''ABC123'']
       [\<lparr>rental_link = ''https://turo.com/reservation/7'', date_text = ''Jul 28 - Aug 2'',
         trip_name = [], vehicle_name = []\<rparr>] =
       [\<lparr>vehicle_info = [''Tesla Model 3 2020'', ''Long Range'', ''ABC123''],
         rental_href = ''https://turo.com/reservation/7'',
         parsed_dates = \<lparr>start_date = ''Jul 28'', end_date = ''Aug 2'', end_month = ''Aug''\<rparr>\<rparr>]
   \<and> process_vehicle_rentals sample_browser (Some ''https://turo.com/trips'') (Some ''Aug'')
       ''https://turo.com/vehicle/1'' [''Tesla Model 3 2020'', ''Long Range'', ''ABC123''] =
       [(''https://turo.com/vehicle/1'', [])]
   \<and> (process_vehicle_rentals w pg target_month vehicle_url info = [] \<or>
       process_vehicle_rentals w pg target_month vehicle_url info = [(vehicle_url, [])])"
proof -
  have page: "rentals_page sample_browser (''https://turo.com/vehicle/1'' @ ''/rentals'') =
     Inr [\<lparr>rental_link = ''https://turo.com/reservation/7'', date_text = ''Jul 28 - Aug 2'',
           trip_name = [], vehicle_name = []\<rparr>]"
    by (simp add: sample_browser_def)
  have parse: "parse_date_range ''Jul 28 - Aug 2'' =
       Some \<lparr>start_date = ''Jul 28'', end_date = ''Aug 2'', end_month = ''Aug''\<rparr>"
    by code_simp
  have kept: "matching_rentals (Some ''Aug'') [''Tesla Model 3 2020'', ''Long Range'', ''ABC123'']
       [\<lparr>rental_link = ''https://turo.com/reservation/7'', date_text = ''Jul 28 - Aug 2'',
         trip_name = [], vehicle_name = []\<rparr>] =
       [\<lparr>vehicle_info = [''Tesla Model 3 2020'', ''Long Range'', ''ABC123''],
         rental_href = ''https://turo.com/reservation/7'',
         parsed_dates = \<lparr>start_date = ''Jul 28'', end_date = ''Aug 2'', end_month = ''Aug''\<rparr>\<rparr>]"
    by (simp add: parse is_rental_in_target_month_def)
  have run: "process_vehicle_rentals sample_browser (Some ''https://turo.com/trips'') (Some ''Aug'')
       ''https://turo.com/vehicle/1'' [''Tesla Model 3 2020'', ''Long Range'', ''ABC123''] =
       [(''https://turo.com/vehicle/1'', [])]"
    by (simp add: process_vehicle_rentals_def extract_rentals_from_page_def self_call_def
        open_new_tab_undefined)
  show ?thesis
    by (intro conjI page parse kept run process_vehicle_rentals_no_record)
qed

end
